theory Spec2Isabelle
  imports Main
begin

section \<open>Path functions used by the module (posixpath)\<close>

text \<open>
  The module \<^verbatim>\<open>file_utils.py\<close> manipulates paths and URLs as strings through
  \<^verbatim>\<open>os.path.basename\<close>, \<^verbatim>\<open>os.path.dirname\<close>, \<^verbatim>\<open>os.path.join\<close>,
  \<^verbatim>\<open>os.path.expanduser\<close> and \<^verbatim>\<open>os.path.abspath\<close>. They are written out here as
  the POSIX implementation of the standard library computes them.
\<close>

definition startswith :: "string \<Rightarrow> string \<Rightarrow> bool" where
  "startswith s pre = (take (length pre) s = pre)"

text \<open>\<^verbatim>\<open>p.rfind('/') + 1\<close>: the index just after the last slash, 0 when there is none.\<close>

definition rfind_sep1 :: "string \<Rightarrow> nat" where
  "rfind_sep1 p = length p - length (takeWhile (\<lambda>c. c \<noteq> CHR ''/'') (rev p))"

text \<open>\<^verbatim>\<open>s.rstrip('/')\<close>\<close>

definition rstrip_sep :: "string \<Rightarrow> string" where
  "rstrip_sep s = rev (dropWhile (\<lambda>c. c = CHR ''/'') (rev s))"

definition basename :: "string \<Rightarrow> string" where
  "basename p = drop (rfind_sep1 p) p"

definition dirname :: "string \<Rightarrow> string" where
  "dirname p =
     (let head = take (rfind_sep1 p) p in
      if head \<noteq> [] \<and> head \<noteq> replicate (length head) (CHR ''/'') then rstrip_sep head
      else head)"

text \<open>\<^verbatim>\<open>os.path.join(a, b)\<close> with two arguments.\<close>

definition path_join :: "string \<Rightarrow> string \<Rightarrow> string" where
  "path_join a b =
     (if startswith b ''/'' then b
      else if a = [] \<or> last a = CHR ''/'' then a @ b
      else a @ ''/'' @ b)"

text \<open>\<^verbatim>\<open>path.split('/')\<close> and \<^verbatim>\<open>s.join(parts)\<close> of Python strings.\<close>

fun split_sep :: "string \<Rightarrow> string list" where
  "split_sep [] = [[]]"
| "split_sep (c # cs) =
     (if c = CHR ''/'' then [] # split_sep cs
      else (case split_sep cs of [] \<Rightarrow> [[c]] | x # xs \<Rightarrow> (c # x) # xs))"

fun str_join :: "string \<Rightarrow> string list \<Rightarrow> string" where
  "str_join s [] = []"
| "str_join s [x] = x"
| "str_join s (x # y # ys) = x @ s @ str_join s (y # ys)"

text \<open>
  The component loop of \<^verbatim>\<open>normpath\<close>; \<open>ini\<close> says whether the path has initial
  slashes, \<open>new_comps\<close> is the list built so far.
\<close>

fun normpath_loop :: "bool \<Rightarrow> string list \<Rightarrow> string list \<Rightarrow> string list" where
  "normpath_loop ini [] new_comps = new_comps"
| "normpath_loop ini (cmp # comps) new_comps =
     (if cmp = [] \<or> cmp = ''.'' then normpath_loop ini comps new_comps
      else if cmp \<noteq> ''..'' \<or> (\<not> ini \<and> new_comps = [])
                \<or> (new_comps \<noteq> [] \<and> last new_comps = ''..'')
        then normpath_loop ini comps (new_comps @ [cmp])
      else if new_comps \<noteq> [] then normpath_loop ini comps (butlast new_comps)
      else normpath_loop ini comps new_comps)"

definition normpath :: "string \<Rightarrow> string" where
  "normpath path =
     (if path = [] then ''.''
      else
        let initial_slashes =
              (if \<not> startswith path ''/'' then 0
               else if startswith path ''//'' \<and> \<not> startswith path ''///'' then 2
               else (1::nat));
            comps = normpath_loop (initial_slashes \<noteq> 0) (split_sep path) [];
            path1 = str_join ''/'' comps;
            path2 = replicate initial_slashes (CHR ''/'') @ path1
        in if path2 = [] then ''.'' else path2)"

section \<open>The world the module acts on\<close>

text \<open>
  Every function of the module works by side effect: it prints, touches the local file
  system, starts external programs (\<^verbatim>\<open>curl\<close>, \<^verbatim>\<open>rclone\<close>) and calls an S3 client.
  The state is passed explicitly. The file system maps normalised absolute paths to
  nodes (symbolic links and permissions are not modelled); \<open>w_out\<close> is what was
  printed, one entry per call of \<^verbatim>\<open>print\<close>; \<open>w_log\<close> records, in order, every
  operating-system call, external program and S3 request the module issued; \<open>w_tmp\<close>
  holds the candidate paths that \<^verbatim>\<open>tempfile\<close> will draw for its next directory.
  An exception is a value \<open>Inl err\<close>, returned with the state reached when it was raised.
\<close>

datatype error =
    FileNotFoundError string
  | NotADirectoryError string
  | IsADirectoryError string
  | FileExistsError string
  | OtherError string

datatype node = File string | Dir

datatype pval = S string | N nat

datatype event =
    ListDir string
  | MakeDirs string
  | MkDir string
  | RmTree string
  | Remove string
  | Write string string
  | Exec "string list"
  | S3List string string
  | S3Upload string string string

record world =
  w_cwd :: string
  w_fs :: "string \<Rightarrow> node option"
  w_out :: "pval list list"
  w_log :: "event list"
  w_tmp :: "string list"

text \<open>
  What lies outside the program: the \<^verbatim>\<open>HOME\<close> variable and the password database
  read by \<^verbatim>\<open>expanduser\<close>, the external programs (given the argument vector and the
  current world, a program either cannot be started, which \<^verbatim>\<open>subprocess.call\<close> raises
  as an error, or exits with a status and leaves a file system), and MD5.
\<close>

record osenv =
  environ_HOME :: "string option"
  pw_dir_uid :: "string option"
  pw_dir_nam :: "string \<Rightarrow> string option"
  run_process :: "string list \<Rightarrow> world \<Rightarrow> error + (int \<times> (string \<Rightarrow> node option))"
  md5_hexdigest :: "string \<Rightarrow> string"

text \<open>
  The \<^verbatim>\<open>s3_client\<close> argument: \<^verbatim>\<open>list_objects_v2(Bucket, Prefix)\<close> raises or returns
  a response, of which the code reads only the keys under \<^verbatim>\<open>'Contents'\<close> (\<open>None\<close>
  when the response has no \<^verbatim>\<open>'Contents'\<close>); \<^verbatim>\<open>upload_file(path, bucket, key)\<close>
  raises or returns, depending on its arguments and on the local world it reads the
  file from.
\<close>

record s3_client =
  list_objects_v2 :: "string \<Rightarrow> string \<Rightarrow> error + string list option"
  s3_upload_file :: "string \<Rightarrow> string \<Rightarrow> string \<Rightarrow> world \<Rightarrow> error + unit"

definition emit :: "event \<Rightarrow> world \<Rightarrow> world" where
  "emit ev w = w\<lparr>w_log := w_log w @ [ev]\<rparr>"

definition print :: "pval list \<Rightarrow> world \<Rightarrow> world" where
  "print vs w = w\<lparr>w_out := w_out w @ [vs]\<rparr>"

definition expanduser :: "osenv \<Rightarrow> string \<Rightarrow> string" where
  "expanduser e path =
     (if \<not> startswith path ''~'' then path
      else
        let i = Suc (length (takeWhile (\<lambda>c. c \<noteq> CHR ''/'') (tl path)));
            userhome =
              (if i = 1 then (case environ_HOME e of None \<Rightarrow> pw_dir_uid e | Some h \<Rightarrow> Some h)
               else pw_dir_nam e (take (i - 1) (tl path)))
        in case userhome of
             None \<Rightarrow> path
           | Some h \<Rightarrow> (let r = rstrip_sep h @ drop i path in if r = [] then ''/'' else r))"

definition abspath :: "world \<Rightarrow> string \<Rightarrow> string" where
  "abspath w path =
     normpath (if startswith path ''/'' then path else path_join (w_cwd w) path)"

text \<open>The chain of parent directories of a path, nearest first.\<close>

fun ancestors_upto :: "nat \<Rightarrow> string \<Rightarrow> string list" where
  "ancestors_upto 0 p = []"
| "ancestors_upto (Suc n) p =
     (let d = dirname p in if d = p \<or> d = [] then [] else d # ancestors_upto n d)"

definition ancestors :: "string \<Rightarrow> string list" where
  "ancestors p = ancestors_upto (length p) p"

fun is_file :: "node option \<Rightarrow> bool" where
  "is_file (Some (File c)) = True"
| "is_file other = False"

subsection \<open>Operating-system calls\<close>

text \<open>
  How the system resolves a path (\<^verbatim>\<open>os.stat\<close>): the empty path and a path with no
  node are \<^verbatim>\<open>ENOENT\<close>, a path that runs through a regular file is \<^verbatim>\<open>ENOTDIR\<close>.

  The file tree is keyed by normalised absolute names, and a path is looked up under
  the name that \<open>abspath\<close> gives it, as text. This agrees with the system for a path
  whose components are plain names. It does not for other spellings, which the system
  resolves component by component: \<^verbatim>\<open>//home/user\<close> is \<^verbatim>\<open>/home/user\<close> on Linux but a
  different name here, and \<^verbatim>\<open>missing/../notes.txt\<close> and \<^verbatim>\<open>notes.txt/\<close> are errors for
  the system but are found here.
\<close>

definition os_stat :: "world \<Rightarrow> string \<Rightarrow> error + node" where
  "os_stat w path =
     (let p = abspath w path in
      if path = [] then Inl (FileNotFoundError path)
      else if list_ex (\<lambda>q. is_file (w_fs w q)) (ancestors p) then Inl (NotADirectoryError path)
      else case w_fs w p of
             None \<Rightarrow> Inl (FileNotFoundError path)
           | Some n \<Rightarrow> Inr n)"

text \<open>
  \<^verbatim>\<open>os.listdir(path)\<close>. The code only ever tests whether a name is in the result, so
  the listing is returned as its membership test: the names of the direct entries.
\<close>

definition listdir :: "string \<Rightarrow> world \<Rightarrow> (error + (string \<Rightarrow> bool)) \<times> world" where
  "listdir path w =
     (let w1 = emit (ListDir path) w; p = abspath w path in
      case os_stat w path of
        Inl err \<Rightarrow> (Inl err, w1)
      | Inr (File c) \<Rightarrow> (Inl (NotADirectoryError path), w1)
      | Inr Dir \<Rightarrow>
          (Inr (\<lambda>n. n \<noteq> [] \<and> n \<noteq> ''.'' \<and> n \<noteq> ''..'' \<and> CHR ''/'' \<notin> set n
                    \<and> w_fs w (path_join p n) \<noteq> None), w1))"

text \<open>
  \<^verbatim>\<open>os.makedirs(name, exist_ok=True)\<close>: an existing directory is accepted, missing
  directories on the way are created, a regular file in the way is an error. On the
  empty name the underlying \<^verbatim>\<open>mkdir('')\<close> fails with \<^verbatim>\<open>ENOENT\<close> and, the empty
  name being no directory, the error is raised in spite of \<^verbatim>\<open>exist_ok\<close>.

  As in \<open>os_stat\<close> the name is normalised first: for \<^verbatim>\<open>a/../b\<close> only \<^verbatim>\<open>b\<close> is made
  here, where the system makes \<^verbatim>\<open>a\<close> as well; and the error for a regular file in the
  way carries the name that was given, where the system names the first component that
  fails.
\<close>

definition makedirs :: "string \<Rightarrow> world \<Rightarrow> (error + unit) \<times> world" where
  "makedirs name w =
     (let w1 = emit (MakeDirs name) w; p = abspath w name in
      if name = [] then (Inl (FileNotFoundError name), w1)
      else if list_ex (\<lambda>q. is_file (w_fs w q)) (ancestors p)
        then (Inl (NotADirectoryError name), w1)
      else if is_file (w_fs w p) then (Inl (FileExistsError name), w1)
      else if w_fs w p = Some Dir then (Inr (), w1)
      else (Inr (),
            w1\<lparr>w_fs := (\<lambda>q. if q \<in> set (p # ancestors p) \<and> w_fs w q = None then Some Dir
                             else w_fs w q)\<rparr>))"

text \<open>\<^verbatim>\<open>os.mkdir(path)\<close>\<close>

definition mkdir :: "string \<Rightarrow> world \<Rightarrow> (error + unit) \<times> world" where
  "mkdir path w =
     (let w1 = emit (MkDir path) w; p = abspath w path in
      if path = [] then (Inl (FileNotFoundError path), w1)
      else if list_ex (\<lambda>q. is_file (w_fs w q)) (ancestors p)
        then (Inl (NotADirectoryError path), w1)
      else if w_fs w p \<noteq> None then (Inl (FileExistsError path), w1)
      else if w_fs w (dirname p) = Some Dir then (Inr (), w1\<lparr>w_fs := (w_fs w)(p \<mapsto> Dir)\<rparr>)
      else (Inl (FileNotFoundError path), w1))"

text \<open>\<^verbatim>\<open>os.remove(path)\<close>\<close>

definition remove :: "string \<Rightarrow> world \<Rightarrow> (error + unit) \<times> world" where
  "remove path w =
     (let w1 = emit (Remove path) w; p = abspath w path in
      case os_stat w path of
        Inl err \<Rightarrow> (Inl err, w1)
      | Inr Dir \<Rightarrow> (Inl (IsADirectoryError path), w1)
      | Inr (File c) \<Rightarrow> (Inr (), w1\<lparr>w_fs := (w_fs w)(p := None)\<rparr>))"

text \<open>\<^verbatim>\<open>with open(path, 'w') as f: f.write(data)\<close>\<close>

definition write_file :: "string \<Rightarrow> string \<Rightarrow> world \<Rightarrow> (error + unit) \<times> world" where
  "write_file path data w =
     (let w1 = emit (Write path data) w; p = abspath w path in
      if path = [] then (Inl (FileNotFoundError path), w1)
      else if list_ex (\<lambda>q. is_file (w_fs w q)) (ancestors p)
        then (Inl (NotADirectoryError path), w1)
      else if w_fs w p = Some Dir then (Inl (IsADirectoryError path), w1)
      else if w_fs w (dirname p) = Some Dir
        then (Inr (), w1\<lparr>w_fs := (w_fs w)(p \<mapsto> File data)\<rparr>)
      else (Inl (FileNotFoundError path), w1))"

text \<open>\<^verbatim>\<open>with open(path, 'rb') as f: f.read()\<close>; reading changes nothing.\<close>

definition read_file :: "string \<Rightarrow> world \<Rightarrow> error + string" where
  "read_file path w =
     (case os_stat w path of
        Inl err \<Rightarrow> Inl err
      | Inr Dir \<Rightarrow> Inl (IsADirectoryError path)
      | Inr (File c) \<Rightarrow> Inr c)"

text \<open>
  \<^verbatim>\<open>tempfile.mkdtemp()\<close>: the candidate names are tried in turn, a name that exists is
  passed over, any other failure of \<^verbatim>\<open>mkdir\<close> is raised, and running out of
  candidates raises \<^verbatim>\<open>FileExistsError\<close>.
\<close>

fun mkdtemp_loop :: "string list \<Rightarrow> world \<Rightarrow> (error + string) \<times> world" where
  "mkdtemp_loop [] w =
     (Inl (FileExistsError ''No usable temporary directory name found''), w\<lparr>w_tmp := []\<rparr>)"
| "mkdtemp_loop (file # names) w =
     (case mkdir file (w\<lparr>w_tmp := names\<rparr>) of
        (Inl err, w1) \<Rightarrow>
          (case err of FileExistsError f \<Rightarrow> mkdtemp_loop names w1 | _ \<Rightarrow> (Inl err, w1))
      | (Inr u, w1) \<Rightarrow> (Inr file, w1))"

definition mkdtemp :: "world \<Rightarrow> (error + string) \<times> world" where
  "mkdtemp w = mkdtemp_loop (w_tmp w) w"

text \<open>
  The removal that ends \<^verbatim>\<open>with tempfile.TemporaryDirectory()\<close>: the directory and
  everything below it goes; a directory that is already gone is no error.
\<close>

definition rmtree :: "string \<Rightarrow> world \<Rightarrow> world" where
  "rmtree path w =
     (let p = abspath w path in
      (emit (RmTree path) w)\<lparr>w_fs := (\<lambda>q. if p \<in> set (q # ancestors q) then None
                                            else w_fs w q)\<rparr>)"

text \<open>
  \<^verbatim>\<open>subprocess.call(argv)\<close>: raises when the program cannot be started, otherwise
  returns its exit status.
\<close>

definition subprocess_call :: "osenv \<Rightarrow> string list \<Rightarrow> world \<Rightarrow> (error + int) \<times> world" where
  "subprocess_call e argv w =
     (let w1 = emit (Exec argv) w in
      case run_process e argv w of
        Inl err \<Rightarrow> (Inl err, w1)
      | Inr (rc, fs') \<Rightarrow> (Inr rc, w1\<lparr>w_fs := fs'\<rparr>))"

text \<open>The two calls made on the S3 client, recorded in the log.\<close>

definition client_list_objects_v2 ::
  "s3_client \<Rightarrow> string \<Rightarrow> string \<Rightarrow> world \<Rightarrow> (error + string list option) \<times> world" where
  "client_list_objects_v2 client bucket prefix w =
     (list_objects_v2 client bucket prefix, emit (S3List bucket prefix) w)"

definition client_upload_file ::
  "s3_client \<Rightarrow> string \<Rightarrow> string \<Rightarrow> string \<Rightarrow> world \<Rightarrow> (error + unit) \<times> world" where
  "client_upload_file client path bucket key w =
     (s3_upload_file client path bucket key w, emit (S3Upload path bucket key) w)"

section \<open>The functions of \<^verbatim>\<open>file_utils.py\<close>\<close>

definition download_file ::
  "osenv \<Rightarrow> string \<Rightarrow> string option \<Rightarrow> world \<Rightarrow> (error + unit) \<times> world" where
  "download_file e url output_path w =
     (let w1 = print [] w;
          w2 = print [S ''downloading'', S url] w1;
          output_path1 = (case output_path of None \<Rightarrow> basename url | Some p \<Rightarrow> p)
      in case makedirs (dirname output_path1) w2 of
           (Inl err, w3) \<Rightarrow> (Inl err, w3)
         | (Inr u, w3) \<Rightarrow>
             (case subprocess_call e [''curl'', url, ''--output'', output_path1] w3 of
                (Inl err, w4) \<Rightarrow> (Inl err, w4)
              | (Inr rc, w4) \<Rightarrow> (Inr (), w4)))"

text \<open>
  \<^verbatim>\<open>download_files\<close>. \<open>resolve_output_dir\<close> is the block under
  \<^verbatim>\<open># get output dir\<close>. The first loop builds \<^verbatim>\<open>skip_urls\<close>, listing
  \<^verbatim>\<open>output_dir\<close> once for every URL; the second calls \<^verbatim>\<open>download_file(url)\<close>, with
  no output path, on every URL outside the set. An exception ends the loop it occurs in.
\<close>

fun skip_loop ::
  "string \<Rightarrow> string list \<Rightarrow> string set \<Rightarrow> world \<Rightarrow> (error + string set) \<times> world" where
  "skip_loop output_dir [] skip_urls w = (Inr skip_urls, w)"
| "skip_loop output_dir (url # urls) skip_urls w =
     (case listdir output_dir w of
        (Inl err, w1) \<Rightarrow> (Inl err, w1)
      | (Inr names, w1) \<Rightarrow>
          skip_loop output_dir urls
            (if names (basename url) then insert url skip_urls else skip_urls) w1)"

fun download_loop ::
  "osenv \<Rightarrow> string list \<Rightarrow> string set \<Rightarrow> world \<Rightarrow> (error + unit) \<times> world" where
  "download_loop e [] skip_urls w = (Inr (), w)"
| "download_loop e (url # urls) skip_urls w =
     (if url \<notin> skip_urls
      then (case download_file e url None w of
              (Inl err, w1) \<Rightarrow> (Inl err, w1)
            | (Inr u, w1) \<Rightarrow> download_loop e urls skip_urls w1)
      else download_loop e urls skip_urls w)"

definition resolve_output_dir :: "osenv \<Rightarrow> world \<Rightarrow> string option \<Rightarrow> string" where
  "resolve_output_dir e w output_dir =
     (let output_dir1 = (case output_dir of None \<Rightarrow> ''.'' | Some d \<Rightarrow> d)
      in abspath w (expanduser e output_dir1))"

definition download_files ::
  "osenv \<Rightarrow> string list \<Rightarrow> string option \<Rightarrow> bool \<Rightarrow> world \<Rightarrow> (error + unit) \<times> world" where
  "download_files e urls output_dir skip_existing w =
     (let output_dir2 = resolve_output_dir e w output_dir;
          w1 = print [S ''downloading'', N (length urls), S ''files''] w;
          w2 = print [] w1;
          w3 = print [S ''using output_dir'', S output_dir2] w2
      in case (if skip_existing
               then (case skip_loop output_dir2 urls {} w3 of
                       (Inl err, w4) \<Rightarrow> (Inl err, w4)
                     | (Inr skip_urls, w4) \<Rightarrow>
                         (Inr skip_urls,
                          if card skip_urls > 0
                          then print [S ''skipping'', N (card skip_urls),
                                      S ''files that already exist''] (print [] w4)
                          else w4))
               else (Inr {}, w3)) of
           (Inl err, w5) \<Rightarrow> (Inl err, w5)
         | (Inr skip_urls, w5) \<Rightarrow>
             (case download_loop e urls skip_urls w5 of
                (Inl err, w6) \<Rightarrow> (Inl err, w6)
              | (Inr u, w6) \<Rightarrow> (Inr (), print [S ''done''] (print [] w6))))"

text \<open>
  \<^verbatim>\<open>download_files_to_s3\<close>. \<open>s3_skip_urls\<close> is the block under
  \<^verbatim>\<open># skip existing files\<close>, \<open>s3_loop\<close> the loop under \<^verbatim>\<open># download files\<close>,
  \<open>s3_body\<close> the body of the \<^verbatim>\<open>with\<close> statement, which
  \<open>download_files_to_s3\<close> wraps between the creation and the removal of the
  temporary directory.
\<close>

definition s3_skip_urls ::
  "s3_client \<Rightarrow> string list \<Rightarrow> string \<Rightarrow> string \<Rightarrow> bool \<Rightarrow> world
     \<Rightarrow> (error + string set) \<times> world" where
  "s3_skip_urls client urls s3_bucket prefix skip_existing w =
     (if skip_existing
      then (case client_list_objects_v2 client s3_bucket prefix w of
              (Inl err, w1) \<Rightarrow> (Inl err, w1)
            | (Inr response, w1) \<Rightarrow>
                (let skip_urls =
                       (case response of
                          Some keys \<Rightarrow>
                            {url \<in> set urls. path_join prefix (basename url) \<in> set keys}
                        | None \<Rightarrow> {})
                 in (Inr skip_urls,
                     if card skip_urls > 0
                     then print [S ''skipping'', N (card skip_urls),
                                 S ''files that already exist''] (print [] w1)
                     else w1)))
      else (Inr {}, w))"

fun s3_loop ::
  "osenv \<Rightarrow> s3_client \<Rightarrow> string \<Rightarrow> string \<Rightarrow> string \<Rightarrow> string list \<Rightarrow> string set \<Rightarrow> world
     \<Rightarrow> (error + unit) \<times> world" where
  "s3_loop e client tmp_dir s3_bucket prefix [] skip_urls w = (Inr (), w)"
| "s3_loop e client tmp_dir s3_bucket prefix (url # urls) skip_urls w =
     (if url \<notin> skip_urls
      then (let local_path = path_join tmp_dir (basename url) in
            case download_file e url (Some local_path) w of
              (Inl err, w1) \<Rightarrow> (Inl err, w1)
            | (Inr u, w1) \<Rightarrow>
                (case client_upload_file client local_path s3_bucket
                        (path_join prefix (basename url)) w1 of
                   (Inl err, w2) \<Rightarrow> (Inl err, w2)
                 | (Inr u1, w2) \<Rightarrow>
                     (case remove local_path w2 of
                        (Inl err, w3) \<Rightarrow> (Inl err, w3)
                      | (Inr u2, w3) \<Rightarrow>
                          s3_loop e client tmp_dir s3_bucket prefix urls skip_urls w3)))
      else s3_loop e client tmp_dir s3_bucket prefix urls skip_urls w)"

definition s3_body ::
  "osenv \<Rightarrow> s3_client \<Rightarrow> string list \<Rightarrow> string \<Rightarrow> string \<Rightarrow> bool \<Rightarrow> string \<Rightarrow> world
     \<Rightarrow> (error + unit) \<times> world" where
  "s3_body e client urls s3_bucket prefix skip_existing tmp_dir w =
     (let w1 = print [S ''downloading'', N (length urls), S ''files''] w;
          w2 = print [] w1;
          w3 = print [S ''using tmp_dir'', S tmp_dir] w2
      in case s3_skip_urls client urls s3_bucket prefix skip_existing w3 of
           (Inl err, w4) \<Rightarrow> (Inl err, w4)
         | (Inr skip_urls, w4) \<Rightarrow>
             (case s3_loop e client tmp_dir s3_bucket prefix urls skip_urls w4 of
                (Inl err, w5) \<Rightarrow> (Inl err, w5)
              | (Inr u, w5) \<Rightarrow> (Inr (), print [S ''done''] (print [] w5))))"

definition download_files_to_s3 ::
  "osenv \<Rightarrow> s3_client \<Rightarrow> string list \<Rightarrow> string \<Rightarrow> string \<Rightarrow> bool \<Rightarrow> world
     \<Rightarrow> (error + unit) \<times> world" where
  "download_files_to_s3 e client urls s3_bucket prefix skip_existing w =
     (case mkdtemp w of
        (Inl err, w1) \<Rightarrow> (Inl err, w1)
      | (Inr tmp_dir, w1) \<Rightarrow>
          (case s3_body e client urls s3_bucket prefix skip_existing tmp_dir w1 of
             (r, w2) \<Rightarrow> (r, rmtree tmp_dir w2)))"

text \<open>\<^verbatim>\<open>get_file_hash\<close> and \<^verbatim>\<open>get_file_hashes\<close>; the list comprehension hashes the
  paths in order and stops at the first that raises.\<close>

definition get_file_hash :: "osenv \<Rightarrow> world \<Rightarrow> string \<Rightarrow> error + string" where
  "get_file_hash e w path =
     (case read_file path w of
        Inl err \<Rightarrow> Inl err
      | Inr bytes \<Rightarrow> Inr (md5_hexdigest e bytes))"

fun get_file_hashes :: "osenv \<Rightarrow> world \<Rightarrow> string list \<Rightarrow> error + string list" where
  "get_file_hashes e w [] = Inr []"
| "get_file_hashes e w (path # paths) =
     (case get_file_hash e w path of
        Inl err \<Rightarrow> Inl err
      | Inr h \<Rightarrow>
          (case get_file_hashes e w paths of
             Inl err \<Rightarrow> Inl err
           | Inr hs \<Rightarrow> Inr (h # hs)))"

text \<open>\<^verbatim>\<open>upload_file\<close> and \<^verbatim>\<open>upload_directory\<close>. The exclude pattern is the Python
  literal \<^verbatim>\<open>'".*"'\<close>: four characters, the first and the last a double quote.\<close>

definition upload_file :: "osenv \<Rightarrow> string \<Rightarrow> string \<Rightarrow> world \<Rightarrow> (error + unit) \<times> world" where
  "upload_file e local_path bucket_path w =
     (let command = [''rclone'', ''copyto'', local_path,
                     ''paradigm-data-portal:'' @ bucket_path, ''-v'']
      in case subprocess_call e command w of
           (Inl err, w1) \<Rightarrow> (Inl err, w1)
         | (Inr rc, w1) \<Rightarrow> (Inr (), w1))"

definition exclude_pattern :: string where
  "exclude_pattern = [CHR 0x22, CHR ''.'', CHR ''*'', CHR 0x22]"

definition upload_directory ::
  "osenv \<Rightarrow> string \<Rightarrow> string \<Rightarrow> string list option \<Rightarrow> bool \<Rightarrow> world
     \<Rightarrow> (error + unit) \<times> world" where
  "upload_directory e local_path bucket_path dir_files remove_deleted_files w =
     (let w1 = print [S ''uploading directory:'', S local_path] w;
          w2 = print [S ''to bucket path:'', S bucket_path] w1;
          w3 = print [] w2;
          action = (if remove_deleted_files then ''sync'' else ''copy'');
          command = [''rclone'', action, local_path,
                     ''paradigm-data-portal:'' @ bucket_path, ''-v'']
      in case (case dir_files of
                 Some files \<Rightarrow>
                   (case mkdtemp w3 of
                      (Inl err, w4) \<Rightarrow> (Inl err, w4)
                    | (Inr temp_dir, w4) \<Rightarrow>
                        (let temp_path = path_join temp_dir ''file_list.txt'' in
                         case write_file temp_path (str_join [CHR 0x0A] files) w4 of
                           (Inl err, w5) \<Rightarrow> (Inl err, w5)
                         | (Inr u, w5) \<Rightarrow> (Inr (command @ [''--files-from'', temp_path]), w5)))
               | None \<Rightarrow> (Inr (command @ [''--exclude'', exclude_pattern]), w3)) of
           (Inl err, w6) \<Rightarrow> (Inl err, w6)
         | (Inr command1, w6) \<Rightarrow>
             (case subprocess_call e command1 w6 of
                (Inl err, w7) \<Rightarrow> (Inl err, w7)
              | (Inr rc, w7) \<Rightarrow> (Inr (), w7)))"

section \<open>Observations on a run\<close>

text \<open>
  The URLs whose download was started, read off the printed lines: \<^verbatim>\<open>download_file\<close>
  prints \<^verbatim>\<open>downloading <url>\<close> before anything else.
\<close>

fun attempt_of :: "pval list \<Rightarrow> string list" where
  "attempt_of [S a, S url] = (if a = ''downloading'' then [url] else [])"
| "attempt_of other = []"

definition attempted :: "pval list list \<Rightarrow> string list" where
  "attempted out = concat (map attempt_of out)"

text \<open>
  The steps of the pipeline for one URL as the specification lists them: download into
  the scratch directory (creation of the parent directory, then \<^verbatim>\<open>curl\<close>), upload of
  the scratch file under the key \<^verbatim>\<open>prefix/basename(url)\<close>, removal of the scratch file.
\<close>

definition pipeline_steps :: "string \<Rightarrow> string \<Rightarrow> string \<Rightarrow> string \<Rightarrow> event list" where
  "pipeline_steps tmp_dir s3_bucket prefix url =
     [MakeDirs (dirname (path_join tmp_dir (basename url))),
      Exec [''curl'', url, ''--output'', path_join tmp_dir (basename url)],
      S3Upload (path_join tmp_dir (basename url)) s3_bucket (path_join prefix (basename url)),
      Remove (path_join tmp_dir (basename url))]"

text \<open>
  Whether a URL is skipped, as the specification words it: only with
  \<^verbatim>\<open>skip_existing\<close>, and only when the key \<^verbatim>\<open>prefix/basename(url)\<close> is among the
  keys the listing returned; a listing without contents skips nothing.
\<close>

definition s3_skipped :: "s3_client \<Rightarrow> string \<Rightarrow> string \<Rightarrow> bool \<Rightarrow> string \<Rightarrow> bool" where
  "s3_skipped client s3_bucket prefix skip_existing url =
     (skip_existing \<and>
      (case list_objects_v2 client s3_bucket prefix of
         Inr (Some keys) \<Rightarrow> path_join prefix (basename url) \<in> set keys
       | Inr None \<Rightarrow> False
       | Inl err \<Rightarrow> False))"

text \<open>\<^verbatim>\<open>os.path.exists(path)\<close>\<close>

definition path_exists :: "world \<Rightarrow> string \<Rightarrow> bool" where
  "path_exists w path = (case os_stat w path of Inl err \<Rightarrow> False | Inr n \<Rightarrow> True)"

section \<open>A concrete world\<close>

text \<open>
  A small machine on which the functions are run: the working directory is
  \<^verbatim>\<open>/home/user\<close>, which holds one file, \<^verbatim>\<open>/tmp/out\<close> is an empty directory, and \<^verbatim>\<open>curl\<close> either writes
  the file it is asked for and exits with 0, or writes nothing and exits with the given
  non-zero status; any other program exits with the status and writes nothing.
\<close>

definition fs0 :: "string \<Rightarrow> node option" where
  "fs0 = [''/'' \<mapsto> Dir, ''/tmp'' \<mapsto> Dir, ''/tmp/out'' \<mapsto> Dir, ''/home'' \<mapsto> Dir,
          ''/home/user'' \<mapsto> Dir, ''/home/user/notes.txt'' \<mapsto> File ''hello'']"

definition w0 :: world where
  "w0 = \<lparr>w_cwd = ''/home/user'', w_fs = fs0, w_out = [], w_log = [],
         w_tmp = [''/tmp/tmpk3x9a2mq'']\<rparr>"

definition example_process ::
  "int \<Rightarrow> string list \<Rightarrow> world \<Rightarrow> error + (int \<times> (string \<Rightarrow> node option))" where
  "example_process status argv w =
     (case argv of
        [prog, url, opt, path] \<Rightarrow>
          (if prog = ''curl'' \<and> status = 0
           then Inr (0, (w_fs w)(abspath w path \<mapsto> File (''content of '' @ url)))
           else Inr (status, w_fs w))
      | _ \<Rightarrow> Inr (status, w_fs w))"

definition example_env :: "int \<Rightarrow> osenv" where
  "example_env status =
     \<lparr>environ_HOME = Some ''/home/user'', pw_dir_uid = Some ''/home/user'',
      pw_dir_nam = (\<lambda>name. None), run_process = example_process status,
      md5_hexdigest = (\<lambda>bytes. ''md5 of '' @ bytes)\<rparr>"

definition example_client :: "string list option \<Rightarrow> s3_client" where
  "example_client contents =
     \<lparr>list_objects_v2 = (\<lambda>bucket prefix. Inr contents),
      s3_upload_file = (\<lambda>path bucket key w.
         case read_file path w of Inl err \<Rightarrow> Inl err | Inr bytes \<Rightarrow> Inr ())\<rparr>"

section \<open>Facts about the path functions\<close>

lemma basename_takeWhile: "basename p = rev (takeWhile (\<lambda>c. c \<noteq> CHR ''/'') (rev p))"
proof -
  let ?t = "takeWhile (\<lambda>c. c \<noteq> CHR ''/'') (rev p)"
  have "length ?t \<le> length p"
    using length_takeWhile_le [of "\<lambda>c. c \<noteq> CHR ''/''" "rev p"] by simp
  then have "drop (length p - length ?t) p = rev (take (length ?t) (rev p))"
    by (simp add: take_rev)
  also have "take (length ?t) (rev p) = ?t"
    by (metis takeWhile_eq_take)
  finally show ?thesis by (simp add: basename_def rfind_sep1_def)
qed

lemma basename_no_sep: "CHR ''/'' \<notin> set (basename p)"
proof
  assume "CHR ''/'' \<in> set (basename p)"
  then have "CHR ''/'' \<in> set (takeWhile (\<lambda>c. c \<noteq> CHR ''/'') (rev p))"
    by (simp add: basename_takeWhile)
  then show False by (auto dest: set_takeWhileD)
qed

lemma dirname_no_sep: "CHR ''/'' \<notin> set q \<Longrightarrow> dirname q = []"
proof -
  assume "CHR ''/'' \<notin> set q"
  then have "\<forall>c\<in>set (rev q). c \<noteq> CHR ''/''" by auto
  then have "takeWhile (\<lambda>c. c \<noteq> CHR ''/'') (rev q) = rev q"
    by (simp only: takeWhile_eq_all_conv)
  then have "rfind_sep1 q = length q - length (rev q)"
    unfolding rfind_sep1_def by (rule arg_cong)
  then have "rfind_sep1 q = 0" by simp
  then show ?thesis by (simp add: dirname_def)
qed

lemma dirname_basename: "dirname (basename url) = []"
  by (rule dirname_no_sep) (rule basename_no_sep)

text \<open>
For a non-empty prefix that does not end in a slash, joining it with a base name is
  the plain \<^verbatim>\<open>prefix/basename(url)\<close>.
\<close>

lemma path_join_plain:
  "prefix \<noteq> [] \<Longrightarrow> last prefix \<noteq> CHR ''/'' \<Longrightarrow>
     path_join prefix (basename url) = prefix @ ''/'' @ basename url"
proof -
  assume a: "prefix \<noteq> []" "last prefix \<noteq> CHR ''/''"
  have "\<not> startswith (basename url) ''/''"
    using basename_no_sep [of url] by (cases "basename url") (auto simp add: startswith_def)
  then show ?thesis using a by (simp add: path_join_def)
qed

section \<open>Effects of the primitive operations\<close>

text \<open>
What each operating-system call leaves of the log, of the printed lines and of the
  working directory, whatever its outcome.
\<close>

lemma abspath_emit [simp]: "abspath (emit ev w) p = abspath w p"
  by (simp add: abspath_def emit_def)

lemma abspath_print [simp]: "abspath (print vs w) p = abspath w p"
  by (simp add: abspath_def print_def)

lemma abspath_cwd_cong: "w_cwd w' = w_cwd w \<Longrightarrow> abspath w' p = abspath w p"
  by (simp add: abspath_def)

lemma os_stat_emit [simp]: "os_stat (emit ev w) p = os_stat w p"
  by (simp add: os_stat_def emit_def abspath_def Let_def)

lemma os_stat_print [simp]: "os_stat (print vs w) p = os_stat w p"
  by (simp add: os_stat_def print_def abspath_def Let_def)

lemma os_stat_cong: "w_fs w' = w_fs w \<Longrightarrow> w_cwd w' = w_cwd w \<Longrightarrow> os_stat w' p = os_stat w p"
  by (simp add: os_stat_def abspath_def Let_def)

lemma emit_fields [simp]:
  "w_log (emit ev w) = w_log w @ [ev]" "w_out (emit ev w) = w_out w"
  "w_fs (emit ev w) = w_fs w" "w_cwd (emit ev w) = w_cwd w" "w_tmp (emit ev w) = w_tmp w"
  by (simp_all add: emit_def)

lemma print_fields [simp]:
  "w_log (print vs w) = w_log w" "w_out (print vs w) = w_out w @ [vs]"
  "w_fs (print vs w) = w_fs w" "w_cwd (print vs w) = w_cwd w" "w_tmp (print vs w) = w_tmp w"
  by (simp_all add: print_def)

lemma makedirs_fields [simp]:
  "w_log (snd (makedirs n w)) = w_log w @ [MakeDirs n]"
  "w_out (snd (makedirs n w)) = w_out w"
  "w_cwd (snd (makedirs n w)) = w_cwd w"
  by (simp_all add: makedirs_def Let_def)

lemma subprocess_call_fields [simp]:
  "w_log (snd (subprocess_call e argv w)) = w_log w @ [Exec argv]"
  "w_out (snd (subprocess_call e argv w)) = w_out w"
  "w_cwd (snd (subprocess_call e argv w)) = w_cwd w"
  by (simp_all add: subprocess_call_def Let_def split: sum.splits prod.splits)

lemma remove_fields [simp]:
  "w_log (snd (remove p w)) = w_log w @ [Remove p]"
  "w_out (snd (remove p w)) = w_out w"
  "w_cwd (snd (remove p w)) = w_cwd w"
  by (simp_all add: remove_def Let_def split: sum.splits node.splits)

lemma client_upload_file_fields [simp]:
  "w_log (snd (client_upload_file c p b k w)) = w_log w @ [S3Upload p b k]"
  "w_out (snd (client_upload_file c p b k w)) = w_out w"
  "w_cwd (snd (client_upload_file c p b k w)) = w_cwd w"
  by (simp_all add: client_upload_file_def)

lemma listdir_fields [simp]:
  "w_log (snd (listdir d w)) = w_log w @ [ListDir d]"
  "w_out (snd (listdir d w)) = w_out w"
  "w_cwd (snd (listdir d w)) = w_cwd w"
  "w_fs (snd (listdir d w)) = w_fs w"
  by (simp_all add: listdir_def Let_def split: sum.splits node.splits)

lemma listdir_fieldsD:
  "listdir d w = (r, w1) \<Longrightarrow>
     w_out w1 = w_out w \<and> w_fs w1 = w_fs w \<and> w_cwd w1 = w_cwd w
     \<and> w_log w1 = w_log w @ [ListDir d]"
  using listdir_fields [of d w] by simp

lemma listdir_cong:
  "w_fs w' = w_fs w \<Longrightarrow> w_cwd w' = w_cwd w \<Longrightarrow> fst (listdir d w') = fst (listdir d w)"
proof -
  assume a: "w_fs w' = w_fs w" "w_cwd w' = w_cwd w"
  have s: "os_stat w' d = os_stat w d" using a by (rule os_stat_cong)
  have p: "abspath w' d = abspath w d" using a(2) by (rule abspath_cwd_cong)
  show ?thesis
    by (simp add: listdir_def Let_def s p a(1) split: sum.splits node.splits)
qed

lemma listdir_missing:
  "os_stat w d = Inl err \<Longrightarrow> listdir d w = (Inl err, emit (ListDir d) w)"
  by (simp add: listdir_def)

lemma path_exists_print [simp]: "path_exists (print vs w) d = path_exists w d"
  by (simp add: path_exists_def)

lemma mkdir_fields [simp]:
  "w_log (snd (mkdir p w)) = w_log w @ [MkDir p]"
  "w_out (snd (mkdir p w)) = w_out w"
  "w_cwd (snd (mkdir p w)) = w_cwd w"
  by (simp_all add: mkdir_def Let_def split: option.splits node.splits)

lemma mkdir_fieldsD:
  "mkdir p w = (r, w1) \<Longrightarrow> w_out w1 = w_out w \<and> w_cwd w1 = w_cwd w"
  using mkdir_fields [of p w] by simp

lemma mkdtemp_loop_fields [simp]:
  "w_out (snd (mkdtemp_loop names w)) = w_out w"
  "w_cwd (snd (mkdtemp_loop names w)) = w_cwd w"
  by (induction names arbitrary: w)
     (auto split: prod.splits sum.splits error.splits dest!: mkdir_fieldsD)

lemma mkdtemp_fieldsD:
  "mkdtemp w = (r, w1) \<Longrightarrow> w_out w1 = w_out w \<and> w_cwd w1 = w_cwd w"
  using mkdtemp_loop_fields [of "w_tmp w" w] by (simp add: mkdtemp_def)

lemma rmtree_fields [simp]:
  "w_log (rmtree p w) = w_log w @ [RmTree p]"
  "w_out (rmtree p w) = w_out w"
  "w_cwd (rmtree p w) = w_cwd w"
  by (simp_all add: rmtree_def Let_def)

lemma rmtree_removes:
  "abspath w p \<in> set (q # ancestors q) \<Longrightarrow> w_fs (rmtree p w) q = None"
  by (simp add: rmtree_def Let_def)

lemma makedirs_empty: "makedirs [] w = (Inl (FileNotFoundError []), emit (MakeDirs []) w)"
  by (simp add: makedirs_def)

lemma attempted_append [simp]: "attempted (xs @ ys) = attempted xs @ attempted ys"
  by (simp add: attempted_def)

lemma attempted_Nil [simp]: "attempted [] = []"
  by (simp add: attempted_def)

lemma attempted_Cons [simp]: "attempted (x # xs) = attempt_of x @ attempted xs"
  by (simp add: attempted_def)

section \<open>The single-file downloader\<close>

lemma download_file_None:
  "download_file e url None w =
     (Inl (FileNotFoundError []),
      emit (MakeDirs []) (print [S ''downloading'', S url] (print [] w)))"
  by (simp add: download_file_def dirname_basename makedirs_empty)

lemma download_file_out [simp]:
  "w_out (snd (download_file e url opath w)) = w_out w @ [[], [S ''downloading'', S url]]"
proof -
  let ?p = "case opath of None \<Rightarrow> basename url | Some p \<Rightarrow> p"
  let ?w2 = "print [S ''downloading'', S url] (print [] w)"
  obtain r3 w3 where m: "makedirs (dirname ?p) ?w2 = (r3, w3)" by (cases "makedirs (dirname ?p) ?w2")
  obtain r4 w4 where s: "subprocess_call e [''curl'', url, ''--output'', ?p] w3 = (r4, w4)"
    by (cases "subprocess_call e [''curl'', url, ''--output'', ?p] w3")
  have o3: "w_out w3 = w_out ?w2" using makedirs_fields(2) [of "dirname ?p" ?w2] m by simp
  have o4: "w_out w4 = w_out w3"
    using subprocess_call_fields(2) [of e "[''curl'', url, ''--output'', ?p]" w3] s by simp
  show ?thesis
    using m s o3 o4 by (simp add: download_file_def split: sum.splits)
qed

lemma download_file_cwd [simp]: "w_cwd (snd (download_file e url opath w)) = w_cwd w"
proof -
  let ?p = "case opath of None \<Rightarrow> basename url | Some p \<Rightarrow> p"
  let ?w2 = "print [S ''downloading'', S url] (print [] w)"
  obtain r3 w3 where m: "makedirs (dirname ?p) ?w2 = (r3, w3)" by (cases "makedirs (dirname ?p) ?w2")
  obtain r4 w4 where s: "subprocess_call e [''curl'', url, ''--output'', ?p] w3 = (r4, w4)"
    by (cases "subprocess_call e [''curl'', url, ''--output'', ?p] w3")
  have o3: "w_cwd w3 = w_cwd ?w2" using makedirs_fields(3) [of "dirname ?p" ?w2] m by simp
  have o4: "w_cwd w4 = w_cwd w3"
    using subprocess_call_fields(3) [of e "[''curl'', url, ''--output'', ?p]" w3] s by simp
  show ?thesis
    using m s o3 o4 by (simp add: download_file_def split: sum.splits)
qed

lemma download_file_log:
  "w_log (snd (download_file e url (Some p) w)) =
     (if fst (download_file e url (Some p) w) = Inr ()
      then w_log w @ [MakeDirs (dirname p), Exec [''curl'', url, ''--output'', p]]
      else if fst (makedirs (dirname p) (print [S ''downloading'', S url] (print [] w))) = Inr ()
      then w_log w @ [MakeDirs (dirname p), Exec [''curl'', url, ''--output'', p]]
      else w_log w @ [MakeDirs (dirname p)])"
proof -
  let ?w2 = "print [S ''downloading'', S url] (print [] w)"
  obtain r3 w3 where m: "makedirs (dirname p) ?w2 = (r3, w3)" by (cases "makedirs (dirname p) ?w2")
  obtain r4 w4 where s: "subprocess_call e [''curl'', url, ''--output'', p] w3 = (r4, w4)"
    by (cases "subprocess_call e [''curl'', url, ''--output'', p] w3")
  have o3: "w_log w3 = w_log w @ [MakeDirs (dirname p)]"
    using makedirs_fields(1) [of "dirname p" ?w2] m by simp
  have o4: "w_log w4 = w_log w3 @ [Exec [''curl'', url, ''--output'', p]]"
    using subprocess_call_fields(1) [of e "[''curl'', url, ''--output'', p]" w3] s by simp
  show ?thesis
    using m s o3 o4 by (auto simp add: download_file_def split: sum.splits)
qed

subsection \<open>C4: the parent-directory step with the output path omitted\<close>

text \<open>
  Claim C4 says that \<^verbatim>\<open>download_file\<close>, also when \<^verbatim>\<open>output_path\<close> is omitted, gets
  through the step that ensures the parent directory of the destination exists. The code
  does not: with the path omitted the destination is \<^verbatim>\<open>basename(url)\<close>, which holds no
  slash, so its \<^verbatim>\<open>dirname\<close> is the empty string and \<^verbatim>\<open>os.makedirs('', exist_ok=True)\<close>
  raises \<^verbatim>\<open>FileNotFoundError\<close>. For every environment, URL and world the call raises
  that error, the only call it has issued is \<^verbatim>\<open>makedirs('')\<close> (no fetch is started)
  and the file system is unchanged.
\<close>

theorem download_file_omitted_path_fails:
  "fst (download_file e url None w) = Inl (FileNotFoundError [])
   \<and> w_log (snd (download_file e url None w)) = w_log w @ [MakeDirs []]
   \<and> w_fs (snd (download_file e url None w)) = w_fs w"
  by (simp add: download_file_None)

theorem download_file_omitted_path_fails_witness:
  "fst (download_file (example_env 0) ''http://x/a.bin'' None w0) = Inl (FileNotFoundError [])
   \<and> dirname (basename ''http://x/a.bin'') = []"
  using download_file_omitted_path_fails [of "example_env 0" "''http://x/a.bin''" w0]
  by (simp add: dirname_basename)

subsection \<open>C2: a fetch that fails\<close>

text \<open>
  Claim C2 as stated fails: the result of \<^verbatim>\<open>subprocess.call\<close> is discarded. With a
  \<^verbatim>\<open>curl\<close> that exits with status 22, the call of \<^verbatim>\<open>subprocess.call\<close> returns 22 and
  \<^verbatim>\<open>download_file\<close> returns normally.
\<close>

theorem download_file_returns_on_failed_fetch:
  "fst (subprocess_call (example_env 22)
          [''curl'', ''http://x/a.bin'', ''--output'', ''/tmp/out/a.bin''] w0) = Inr 22
   \<and> fst (download_file (example_env 22) ''http://x/a.bin'' (Some ''/tmp/out/a.bin'') w0)
       = Inr ()"
  by code_simp

text \<open>
  Claim C2, amended. \<^verbatim>\<open>download_file\<close> does not look at the exit status of the fetch:
  once the parent directory of the destination is ensured and \<^verbatim>\<open>curl\<close> could be
  started, \<^verbatim>\<open>download_file\<close> returns normally whatever the exit status \<open>rc\<close>, leaving
  the file system as \<^verbatim>\<open>curl\<close> left it. So it raises only when the parent-directory
  step fails or the program cannot be started.
\<close>

theorem download_file_ignores_exit_status:
  assumes "makedirs (dirname p) (print [S ''downloading'', S url] (print [] w)) = (Inr (), w3)"
      and "run_process e [''curl'', url, ''--output'', p] w3 = Inr (rc, fs')"
  shows "download_file e url (Some p) w
           = (Inr (), (emit (Exec [''curl'', url, ''--output'', p]) w3)\<lparr>w_fs := fs'\<rparr>)"
  using assms by (simp add: download_file_def subprocess_call_def Let_def)

theorem download_file_ignores_exit_status_witness:
  "fst (download_file (example_env 22) ''http://x/a.bin'' (Some ''/tmp/out/a.bin'') w0) = Inr ()"
proof -
  let ?w2 = "print [S ''downloading'', S ''http://x/a.bin''] (print [] w0)"
  let ?w3 = "snd (makedirs (dirname ''/tmp/out/a.bin'') ?w2)"
  have "fst (makedirs (dirname ''/tmp/out/a.bin'') ?w2) = Inr ()" by code_simp
  then have m: "makedirs (dirname ''/tmp/out/a.bin'') ?w2 = (Inr (), ?w3)"
    by (metis prod.collapse)
  have r: "run_process (example_env 22)
             [''curl'', ''http://x/a.bin'', ''--output'', ''/tmp/out/a.bin''] ?w3
           = Inr (22, w_fs ?w3)"
    by (simp add: example_env_def example_process_def)
  show ?thesis
    using download_file_ignores_exit_status [OF m r] by simp
qed

section \<open>The batch downloader\<close>

text \<open>
  The transfer loop stops at the first URL outside the skip set, where
  \<^verbatim>\<open>download_file(url)\<close> raises; the skip loop only lists; neither touches the file
  system.
\<close>

lemma download_loop_result:
  "download_loop e urls skip_urls w =
     (case filter (\<lambda>u. u \<notin> skip_urls) urls of
        [] \<Rightarrow> (Inr (), w)
      | u # us \<Rightarrow> (Inl (FileNotFoundError []),
                   emit (MakeDirs []) (print [S ''downloading'', S u] (print [] w))))"
  by (induction urls) (simp_all add: download_file_None)

lemma download_loop_fs [simp]: "w_fs (snd (download_loop e urls skip_urls w)) = w_fs w"
  by (simp add: download_loop_result split: list.splits)

lemma skip_loop_out [simp]: "w_out (snd (skip_loop d urls acc w)) = w_out w"
  by (induction urls arbitrary: acc w)
     (auto split: prod.splits sum.splits dest!: listdir_fieldsD)

lemma skip_loop_fs [simp]: "w_fs (snd (skip_loop d urls acc w)) = w_fs w"
  by (induction urls arbitrary: acc w)
     (auto split: prod.splits sum.splits dest!: listdir_fieldsD)

lemma skip_loop_missing:
  "os_stat w d = Inl err \<Longrightarrow> urls \<noteq> [] \<Longrightarrow>
     skip_loop d urls acc w = (Inl err, emit (ListDir d) w)"
  by (cases urls) (simp_all add: listdir_missing)

lemma skip_loop_result:
  "fst (listdir d w) = Inr names \<Longrightarrow>
     fst (skip_loop d urls acc w) = Inr (acc \<union> {u \<in> set urls. names (basename u)})"
proof (induction urls arbitrary: acc w)
  case Nil
  show ?case by simp
next
  case (Cons u urls)
  obtain r w1 where l: "listdir d w = (r, w1)" by (cases "listdir d w")
  then have r: "r = Inr names" using Cons.prems by simp
  have "w_fs w1 = w_fs w" "w_cwd w1 = w_cwd w" using listdir_fieldsD [OF l] by simp_all
  then have "fst (listdir d w1) = fst (listdir d w)" by (rule listdir_cong)
  then have "fst (listdir d w1) = Inr names" using Cons.prems by simp
  then have "fst (skip_loop d urls (if names (basename u) then insert u acc else acc) w1)
             = Inr ((if names (basename u) then insert u acc else acc)
                    \<union> {u \<in> set urls. names (basename u)})"
    by (rule Cons.IH)
  then show ?case using l r by auto
qed

lemma download_files_missing_dir:
  assumes "os_stat w (resolve_output_dir e w output_dir) = Inl err" and "urls \<noteq> []"
  shows "download_files e urls output_dir True w =
           (Inl err,
            emit (ListDir (resolve_output_dir e w output_dir))
              (print [S ''using output_dir'', S (resolve_output_dir e w output_dir)]
                 (print [] (print [S ''downloading'', N (length urls), S ''files''] w))))"
  using assms by (simp add: download_files_def Let_def skip_loop_missing)

lemma download_files_no_urls:
  "download_files e [] output_dir skip_existing w =
     (Inr (), print [S ''done''] (print []
        (print [S ''using output_dir'', S (resolve_output_dir e w output_dir)]
           (print [] (print [S ''downloading'', N 0, S ''files''] w)))))"
  by (simp add: download_files_def Let_def)

lemma download_files_no_skip:
  "download_files e (u # urls) output_dir False w =
     (Inl (FileNotFoundError []),
      emit (MakeDirs []) (print [S ''downloading'', S u] (print []
        (print [S ''using output_dir'', S (resolve_output_dir e w output_dir)]
           (print [] (print [S ''downloading'', N (Suc (length urls)), S ''files''] w))))))"
  by (simp add: download_files_def Let_def download_loop_result)

lemma download_files_fs_unchanged:
  "w_fs (snd (download_files e urls output_dir skip_existing w)) = w_fs w"
proof -
  let ?d = "resolve_output_dir e w output_dir"
  let ?w3 = "print [S ''using output_dir'', S ?d]
               (print [] (print [S ''downloading'', N (length urls), S ''files''] w))"
  show ?thesis
  proof (cases skip_existing)
    case False
    obtain r6 w6 where dl: "download_loop e urls {} ?w3 = (r6, w6)"
      by (cases "download_loop e urls {} ?w3")
    have "w_fs (snd (download_loop e urls {} ?w3)) = w_fs ?w3" by (rule download_loop_fs)
    then have "w_fs w6 = w_fs w" unfolding dl by simp
    then show ?thesis using False dl by (cases r6) (simp_all add: download_files_def Let_def)
  next
    case True
    obtain r4 w4 where sk: "skip_loop ?d urls {} ?w3 = (r4, w4)"
      by (cases "skip_loop ?d urls {} ?w3")
    have "w_fs (snd (skip_loop ?d urls {} ?w3)) = w_fs ?w3" by (rule skip_loop_fs)
    then have f4: "w_fs w4 = w_fs w" unfolding sk by simp
    show ?thesis
    proof (cases r4)
      case (Inl err)
      then show ?thesis using True sk f4 by (simp add: download_files_def Let_def)
    next
      case (Inr skip_urls)
      let ?w5 = "if card skip_urls > 0
                 then print [S ''skipping'', N (card skip_urls), S ''files that already exist'']
                        (print [] w4)
                 else w4"
      obtain r6 w6 where dl: "download_loop e urls skip_urls ?w5 = (r6, w6)"
        by (cases "download_loop e urls skip_urls ?w5")
      have "w_fs (snd (download_loop e urls skip_urls ?w5)) = w_fs ?w5" by (rule download_loop_fs)
      then have "w_fs w6 = w_fs w" unfolding dl using f4 by simp
      then show ?thesis
        using True sk Inr dl by (cases r6) (simp_all add: download_files_def Let_def)
    qed
  qed
qed

subsection \<open>C1: where the files are put\<close>

text \<open>
  Claim C1 says that \<^verbatim>\<open>download_files\<close> invokes the downloader with destination
  \<^verbatim>\<open>output_dir/basename(url)\<close>, so that after a run against an empty
  \<^verbatim>\<open>output_dir\<close> the files are in it. The code calls \<^verbatim>\<open>download_file(url)\<close> with no
  output path. Run on two URLs with the empty directory \<^verbatim>\<open>/tmp/out\<close> as
  \<^verbatim>\<open>output_dir\<close>: the call raises \<^verbatim>\<open>FileNotFoundError\<close>, the calls issued are the two
  listings of \<^verbatim>\<open>/tmp/out\<close> and \<^verbatim>\<open>makedirs('')\<close> (the parent of the destination is the
  empty string, not \<^verbatim>\<open>/tmp/out\<close>), no fetch is started, and neither file is in
  \<^verbatim>\<open>/tmp/out\<close> afterwards. (By \<open>download_files_fs_unchanged\<close> no call of
  \<^verbatim>\<open>download_files\<close> ever changes the file system.)
\<close>

theorem download_files_leaves_output_dir_empty:
  "fst (download_files (example_env 0) [''http://x/a.bin'', ''http://x/b.bin'']
          (Some ''/tmp/out'') True w0) = Inl (FileNotFoundError [])
   \<and> w_log (snd (download_files (example_env 0) [''http://x/a.bin'', ''http://x/b.bin'']
          (Some ''/tmp/out'') True w0))
       = [ListDir ''/tmp/out'', ListDir ''/tmp/out'', MakeDirs []]
   \<and> w_fs (snd (download_files (example_env 0) [''http://x/a.bin'', ''http://x/b.bin'']
          (Some ''/tmp/out'') True w0)) ''/tmp/out/a.bin'' = None
   \<and> w_fs (snd (download_files (example_env 0) [''http://x/a.bin'', ''http://x/b.bin'']
          (Some ''/tmp/out'') True w0)) ''/tmp/out/b.bin'' = None"
  by code_simp

theorem download_files_leaves_output_dir_empty_witness:
  "fst (download_files (example_env 0) [''http://x/a.bin'', ''http://x/b.bin'']
          (Some ''/tmp/out'') True w0) \<noteq> Inr ()"
  using download_files_leaves_output_dir_empty by simp

subsection \<open>C5: which URLs are attempted\<close>

text \<open>
  Claim C5 says that with \<^verbatim>\<open>skip_existing=false\<close> every URL of the input is attempted.
  The code attempts the first URL only: with \<^verbatim>\<open>skip_existing=false\<close> the URLs whose
  download is started are exactly the first one (none for an empty input), and a
  non-empty input ends in \<^verbatim>\<open>FileNotFoundError\<close>, because the call
  \<^verbatim>\<open>download_file(url)\<close> of the transfer loop always raises.
\<close>

theorem download_files_stops_after_first_url:
  "attempted (w_out (snd (download_files e urls output_dir False w)))
     = attempted (w_out w) @ take 1 urls
   \<and> (urls \<noteq> [] \<longrightarrow>
        fst (download_files e urls output_dir False w) = Inl (FileNotFoundError []))"
  by (cases urls) (simp_all add: download_files_no_urls download_files_no_skip)

theorem download_files_stops_after_first_url_witness:
  "attempted (w_out (snd (download_files (example_env 0)
       [''http://x/a.bin'', ''http://x/b.bin''] (Some ''/tmp/out'') False w0)))
     = [''http://x/a.bin'']
   \<and> fst (download_files (example_env 0)
       [''http://x/a.bin'', ''http://x/b.bin''] (Some ''/tmp/out'') False w0)
     = Inl (FileNotFoundError [])"
  using download_files_stops_after_first_url
    [of "example_env 0" "[''http://x/a.bin'', ''http://x/b.bin'']" "Some ''/tmp/out''" w0]
  by (simp add: w0_def)

text \<open>
  The other half of claim C5 holds as far as the transfer loop gets: with
  \<^verbatim>\<open>skip_existing=true\<close> and an \<^verbatim>\<open>output_dir\<close> that can be listed, no URL whose
  base name is in the listing is attempted, and the first URL whose base name is not in
  the listing is.
\<close>

theorem download_files_skips_listed_names:
  assumes "fst (listdir (resolve_output_dir e w output_dir) w) = Inr names"
  shows "attempted (w_out (snd (download_files e urls output_dir True w)))
           = attempted (w_out w) @ take 1 (filter (\<lambda>u. \<not> names (basename u)) urls)"
proof -
  let ?d = "resolve_output_dir e w output_dir"
  let ?w3 = "print [S ''using output_dir'', S ?d]
               (print [] (print [S ''downloading'', N (length urls), S ''files''] w))"
  obtain r4 w4 where sk: "skip_loop ?d urls {} ?w3 = (r4, w4)"
    by (cases "skip_loop ?d urls {} ?w3")
  have "fst (listdir ?d ?w3) = fst (listdir ?d w)" by (rule listdir_cong) simp_all
  then have "fst (listdir ?d ?w3) = Inr names" using assms by simp
  then have r4: "r4 = Inr {u \<in> set urls. names (basename u)}"
    using skip_loop_result [of ?d ?w3 names urls "{}"] sk by simp
  have o4: "w_out w4 = w_out ?w3" using skip_loop_out [of ?d urls "{}" ?w3] sk by simp
  have flt: "filter (\<lambda>u. u \<notin> {u \<in> set urls. names (basename u)}) urls
             = filter (\<lambda>u. \<not> names (basename u)) urls"
    by (rule filter_cong) auto
  show ?thesis
  proof (cases "filter (\<lambda>u. \<not> names (basename u)) urls")
    case Nil
    then show ?thesis
      using sk r4 o4 flt by (simp add: download_files_def Let_def download_loop_result)
  next
    case (Cons u us)
    then show ?thesis
      using sk r4 o4 flt by (simp add: download_files_def Let_def download_loop_result)
  qed
qed

theorem download_files_skips_listed_names_witness:
  "attempted (w_out (snd (download_files (example_env 0)
       [''http://x/notes.txt'', ''http://x/b.bin''] (Some ''~'') True w0)))
     = [''http://x/b.bin'']"
proof -
  let ?names = "\<lambda>n. n \<noteq> [] \<and> n \<noteq> ''.'' \<and> n \<noteq> ''..'' \<and> CHR ''/'' \<notin> set n
                 \<and> w_fs w0 (path_join ''/home/user'' n) \<noteq> None"
  have d: "resolve_output_dir (example_env 0) w0 (Some ''~'') = ''/home/user''" by code_simp
  have a: "abspath w0 ''/home/user'' = ''/home/user''" by code_simp
  have f: "w_fs w0 ''/home/user'' = Some Dir" by code_simp
  have st: "os_stat w0 ''/home/user'' = Inr Dir" by code_simp
  have l: "fst (listdir (resolve_output_dir (example_env 0) w0 (Some ''~'')) w0) = Inr ?names"
    by (simp add: d listdir_def a st)
  have n1: "?names (basename ''http://x/notes.txt'')" by code_simp
  have n2: "\<not> ?names (basename ''http://x/b.bin'')" by code_simp
  have o: "w_out w0 = []" by (simp add: w0_def)
  show ?thesis
    using download_files_skips_listed_names
      [OF l, of "[''http://x/notes.txt'', ''http://x/b.bin'']"] n1 n2 o
    by simp
qed

subsection \<open>C10: an output directory that does not exist\<close>

text \<open>
  Claim C10 as stated fails on an empty list of URLs: the listing of \<^verbatim>\<open>output_dir\<close>
  sits inside the loop over the URLs, so with no URL nothing is listed and the call
  returns normally although \<^verbatim>\<open>/nonexistent\<close> does not exist.
\<close>

theorem download_files_missing_dir_no_urls_returns:
  "\<not> path_exists w0 (resolve_output_dir (example_env 0) w0 (Some ''/nonexistent''))
   \<and> fst (download_files (example_env 0) [] (Some ''/nonexistent'') True w0) = Inr ()"
  by code_simp

text \<open>
  Claim C10, amended. With \<^verbatim>\<open>skip_existing=true\<close>, a non-empty list of URLs and a
  resolved \<^verbatim>\<open>output_dir\<close> that does not exist (the system fails to resolve it, with
  error \<open>err\<close>: \<^verbatim>\<open>FileNotFoundError\<close>, or \<^verbatim>\<open>NotADirectoryError\<close> when the path runs
  through a regular file), \<^verbatim>\<open>download_files\<close> raises that error at the first listing of
  \<^verbatim>\<open>output_dir\<close>: that listing is the only call issued, no download is started and
  the file system is unchanged. With an empty list of URLs it returns normally without
  any listing. With \<^verbatim>\<open>skip_existing=false\<close> no listing is performed, and the download of
  the first URL is started whether or not \<^verbatim>\<open>output_dir\<close> exists.
\<close>

theorem download_files_missing_output_dir:
  "(os_stat w (resolve_output_dir e w output_dir) = Inl err \<and> urls \<noteq> [] \<longrightarrow>
      \<not> path_exists w (resolve_output_dir e w output_dir)
      \<and> fst (download_files e urls output_dir True w) = Inl err
      \<and> w_log (snd (download_files e urls output_dir True w))
        = w_log w @ [ListDir (resolve_output_dir e w output_dir)]
      \<and> attempted (w_out (snd (download_files e urls output_dir True w))) = attempted (w_out w)
      \<and> w_fs (snd (download_files e urls output_dir True w)) = w_fs w)
   \<and> (urls = [] \<longrightarrow>
      fst (download_files e urls output_dir True w) = Inr ()
      \<and> w_log (snd (download_files e urls output_dir True w)) = w_log w)
   \<and> (\<exists>evs. w_log (snd (download_files e urls output_dir False w)) = w_log w @ evs
            \<and> (\<forall>d. ListDir d \<notin> set evs))
   \<and> (urls \<noteq> [] \<longrightarrow>
        (\<exists>rest. attempted (w_out (snd (download_files e urls output_dir False w)))
                  = attempted (w_out w) @ hd urls # rest))"
  by (cases urls)
     (simp_all add: download_files_no_urls download_files_no_skip download_files_missing_dir
                    path_exists_def)

theorem download_files_missing_output_dir_witness:
  "os_stat w0 (resolve_output_dir (example_env 0) w0 (Some ''/nonexistent''))
     = Inl (FileNotFoundError ''/nonexistent'')
   \<and> fst (download_files (example_env 0) [''http://x/a.bin''] (Some ''/nonexistent'') True w0)
       = Inl (FileNotFoundError ''/nonexistent'')
   \<and> w_log (snd (download_files (example_env 0) [''http://x/a.bin''] (Some ''/nonexistent'')
        True w0)) = [ListDir ''/nonexistent'']"
proof -
  have d: "resolve_output_dir (example_env 0) w0 (Some ''/nonexistent'') = ''/nonexistent''"
    by code_simp
  have n: "os_stat w0 (resolve_output_dir (example_env 0) w0 (Some ''/nonexistent''))
             = Inl (FileNotFoundError ''/nonexistent'')"
    by code_simp
  have l: "w_log w0 = []" by (simp add: w0_def)
  show ?thesis
    using n l download_files_missing_output_dir
      [of w0 "example_env 0" "Some ''/nonexistent''" "FileNotFoundError ''/nonexistent''"
          "[''http://x/a.bin'']"]
    by (simp add: d)
qed

section \<open>The download-then-upload pipeline\<close>

text \<open>
  The loop of \<^verbatim>\<open>download_files_to_s3\<close> issues, for each URL outside the skip set, the
  four calls of \<open>pipeline_steps\<close> and stops at the first call that raises.
\<close>

lemma s3_skip_urls_fieldsD:
  "s3_skip_urls client urls s3_bucket prefix skip_existing w = (r, w1) \<Longrightarrow>
     attempted (w_out w1) = attempted (w_out w) \<and> w_cwd w1 = w_cwd w
     \<and> w_log w1 = w_log w @ (if skip_existing then [S3List s3_bucket prefix] else [])"
  by (auto simp add: s3_skip_urls_def client_list_objects_v2_def Let_def
           split: if_splits sum.splits)

lemma s3_skip_urls_filter:
  "s3_skip_urls client urls s3_bucket prefix skip_existing w = (Inr skip_urls, w1) \<Longrightarrow>
     filter (\<lambda>u. u \<notin> skip_urls) urls
       = filter (\<lambda>u. \<not> s3_skipped client s3_bucket prefix skip_existing u) urls"
  by (rule filter_cong)
     (auto simp add: s3_skip_urls_def client_list_objects_v2_def s3_skipped_def Let_def
           split: if_splits sum.splits option.splits)

lemma s3_loop_cwd [simp]:
  "w_cwd (snd (s3_loop e client tmp_dir s3_bucket prefix urls skip_urls w)) = w_cwd w"
proof (induction urls arbitrary: w)
  case Nil
  show ?case by simp
next
  case (Cons u urls)
  let ?p = "path_join tmp_dir (basename u)"
  let ?k = "path_join prefix (basename u)"
  obtain r1 w1 where d: "download_file e u (Some ?p) w = (r1, w1)"
    by (cases "download_file e u (Some ?p) w")
  obtain r2 w2 where up: "client_upload_file client ?p s3_bucket ?k w1 = (r2, w2)"
    by (cases "client_upload_file client ?p s3_bucket ?k w1")
  obtain r3 w3 where rm: "remove ?p w2 = (r3, w3)" by (cases "remove ?p w2")
  have c1: "w_cwd w1 = w_cwd w" using download_file_cwd [of e u "Some ?p" w] d by simp
  have c2: "w_cwd w2 = w_cwd w1"
    using client_upload_file_fields(3) [of client ?p s3_bucket ?k w1] up by simp
  have c3: "w_cwd w3 = w_cwd w2" using remove_fields(3) [of ?p w2] rm by simp
  show ?case
    using d up rm c1 c2 c3 Cons.IH by (simp add: Let_def split: sum.splits)
qed

lemma s3_loop_out:
  "\<exists>n. attempted (w_out (snd (s3_loop e client tmp_dir s3_bucket prefix urls skip_urls w)))
          = attempted (w_out w) @ take n (filter (\<lambda>u. u \<notin> skip_urls) urls)
       \<and> (fst (s3_loop e client tmp_dir s3_bucket prefix urls skip_urls w) = Inr ()
            \<longrightarrow> length (filter (\<lambda>u. u \<notin> skip_urls) urls) \<le> n)"
proof (induction urls arbitrary: w)
  case Nil
  show ?case by simp
next
  case (Cons u urls)
  show ?case
  proof (cases "u \<in> skip_urls")
    case True
    then show ?thesis using Cons.IH [of w] by simp
  next
    case False
    let ?p = "path_join tmp_dir (basename u)"
    let ?k = "path_join prefix (basename u)"
    let ?todo = "filter (\<lambda>u. u \<notin> skip_urls) urls"
    obtain r1 w1 where d: "download_file e u (Some ?p) w = (r1, w1)"
      by (cases "download_file e u (Some ?p) w")
    obtain r2 w2 where up: "client_upload_file client ?p s3_bucket ?k w1 = (r2, w2)"
      by (cases "client_upload_file client ?p s3_bucket ?k w1")
    obtain r3 w3 where rm: "remove ?p w2 = (r3, w3)" by (cases "remove ?p w2")
    have o1: "attempted (w_out w1) = attempted (w_out w) @ [u]"
      using download_file_out [of e u "Some ?p" w] d by simp
    have o2: "w_out w2 = w_out w1"
      using client_upload_file_fields(2) [of client ?p s3_bucket ?k w1] up by simp
    have o3: "w_out w3 = w_out w2" using remove_fields(2) [of ?p w2] rm by simp
    show ?thesis
    proof (cases "r1 = Inr () \<and> r2 = Inr () \<and> r3 = Inr ()")
      case True
      then have eq: "s3_loop e client tmp_dir s3_bucket prefix (u # urls) skip_urls w
                     = s3_loop e client tmp_dir s3_bucket prefix urls skip_urls w3"
        using False d up rm by (simp add: Let_def)
      obtain n where n:
        "attempted (w_out (snd (s3_loop e client tmp_dir s3_bucket prefix urls skip_urls w3)))
           = attempted (w_out w3) @ take n ?todo"
        "fst (s3_loop e client tmp_dir s3_bucket prefix urls skip_urls w3) = Inr ()
           \<longrightarrow> length ?todo \<le> n"
        using Cons.IH [of w3] by blast
      have "attempted (w_out (snd (s3_loop e client tmp_dir s3_bucket prefix (u # urls) skip_urls w)))
              = attempted (w_out w) @ take (Suc n) (filter (\<lambda>u. u \<notin> skip_urls) (u # urls))"
        using eq n(1) o1 o2 o3 False by simp
      moreover have "fst (s3_loop e client tmp_dir s3_bucket prefix (u # urls) skip_urls w) = Inr ()
              \<longrightarrow> length (filter (\<lambda>u. u \<notin> skip_urls) (u # urls)) \<le> Suc n"
        using eq n(2) False by simp
      ultimately show ?thesis by blast
    next
      case failed: False
      then have res: "fst (s3_loop e client tmp_dir s3_bucket prefix (u # urls) skip_urls w) \<noteq> Inr ()"
        and out: "w_out (snd (s3_loop e client tmp_dir s3_bucket prefix (u # urls) skip_urls w))
                  = w_out w1"
        using False d up rm o2 o3 by (auto simp add: Let_def split: sum.splits)
      have "attempted (w_out (snd (s3_loop e client tmp_dir s3_bucket prefix (u # urls) skip_urls w)))
              = attempted (w_out w) @ take 1 (filter (\<lambda>u. u \<notin> skip_urls) (u # urls))"
        using out o1 False by simp
      then show ?thesis using res by blast
    qed
  qed
qed

lemma length_pipeline_steps [simp]: "length (pipeline_steps tmp_dir s3_bucket prefix u) = 4"
  by (simp add: pipeline_steps_def)

lemma s3_loop_log:
  "\<exists>k. w_log (snd (s3_loop e client tmp_dir s3_bucket prefix urls skip_urls w))
          = w_log w @ take k (concat (map (pipeline_steps tmp_dir s3_bucket prefix)
                                        (filter (\<lambda>u. u \<notin> skip_urls) urls)))
       \<and> (fst (s3_loop e client tmp_dir s3_bucket prefix urls skip_urls w) = Inr ()
            \<longrightarrow> length (concat (map (pipeline_steps tmp_dir s3_bucket prefix)
                                    (filter (\<lambda>u. u \<notin> skip_urls) urls))) \<le> k)"
proof (induction urls arbitrary: w)
  case Nil
  show ?case by simp
next
  case (Cons u urls)
  show ?case
  proof (cases "u \<in> skip_urls")
    case True
    then show ?thesis using Cons.IH [of w] by simp
  next
    case False
    let ?p = "path_join tmp_dir (basename u)"
    let ?k = "path_join prefix (basename u)"
    let ?steps = "pipeline_steps tmp_dir s3_bucket prefix u"
    let ?rest = "concat (map (pipeline_steps tmp_dir s3_bucket prefix)
                          (filter (\<lambda>u. u \<notin> skip_urls) urls))"
    let ?run = "s3_loop e client tmp_dir s3_bucket prefix (u # urls) skip_urls w"
    have full: "concat (map (pipeline_steps tmp_dir s3_bucket prefix)
                          (filter (\<lambda>u. u \<notin> skip_urls) (u # urls))) = ?steps @ ?rest"
      using False by simp
    obtain r1 w1 where d: "download_file e u (Some ?p) w = (r1, w1)"
      by (cases "download_file e u (Some ?p) w")
    obtain r2 w2 where up: "client_upload_file client ?p s3_bucket ?k w1 = (r2, w2)"
      by (cases "client_upload_file client ?p s3_bucket ?k w1")
    obtain r3 w3 where rm: "remove ?p w2 = (r3, w3)" by (cases "remove ?p w2")
    have l1: "w_log w1 = w_log w @ take 1 ?steps \<or> w_log w1 = w_log w @ take 2 ?steps"
      using download_file_log [of e u ?p w] d by (auto simp add: pipeline_steps_def)
    have l1ok: "r1 = Inr () \<Longrightarrow> w_log w1 = w_log w @ take 2 ?steps"
      using download_file_log [of e u ?p w] d by (simp add: pipeline_steps_def)
    have l2: "w_log w2 = w_log w1 @ [S3Upload ?p s3_bucket ?k]"
      using client_upload_file_fields(1) [of client ?p s3_bucket ?k w1] up by simp
    have l3: "w_log w3 = w_log w2 @ [Remove ?p]" using remove_fields(1) [of ?p w2] rm by simp
    have l3ok: "r1 = Inr () \<Longrightarrow> w_log w3 = w_log w @ ?steps"
      using l1ok l2 l3 by (simp add: pipeline_steps_def)
    have l2ok: "r1 = Inr () \<Longrightarrow> w_log w2 = w_log w @ take 3 ?steps"
      using l1ok l2 by (simp add: pipeline_steps_def)
    show ?thesis
    proof (cases "r1 = Inr () \<and> r2 = Inr () \<and> r3 = Inr ()")
      case True
      then have eq: "?run = s3_loop e client tmp_dir s3_bucket prefix urls skip_urls w3"
        using False d up rm by (simp add: Let_def)
      obtain k where k:
        "w_log (snd (s3_loop e client tmp_dir s3_bucket prefix urls skip_urls w3))
           = w_log w3 @ take k ?rest"
        "fst (s3_loop e client tmp_dir s3_bucket prefix urls skip_urls w3) = Inr ()
           \<longrightarrow> length ?rest \<le> k"
        using Cons.IH [of w3] by blast
      have "w_log (snd ?run) = w_log w @ take (4 + k) (?steps @ ?rest)"
        using eq k(1) l3ok True by simp
      moreover have "fst ?run = Inr () \<longrightarrow> length (?steps @ ?rest) \<le> 4 + k"
        using eq k(2) by simp
      ultimately show ?thesis unfolding full by blast
    next
      case failed: False
      have res: "fst ?run \<noteq> Inr ()"
        using failed False d up rm by (auto simp add: Let_def split: sum.splits)
      have "\<exists>j\<le>4. w_log (snd ?run) = w_log w @ take j ?steps"
      proof (cases r1)
        case (Inl err)
        then have sr: "snd ?run = w1" using False d by (simp add: Let_def)
        from l1 show ?thesis unfolding sr
        proof
          assume a: "w_log w1 = w_log w @ take 1 ?steps"
          show "\<exists>j\<le>4. w_log w1 = w_log w @ take j ?steps"
            by (rule exI [of _ 1]) (simp add: a)
        next
          assume a: "w_log w1 = w_log w @ take 2 ?steps"
          show "\<exists>j\<le>4. w_log w1 = w_log w @ take j ?steps"
            by (rule exI [of _ 2]) (simp add: a)
        qed
      next
        case r1: (Inr u1)
        show ?thesis
        proof (cases r2)
          case (Inl err)
          then have sr: "snd ?run = w2" using False d up r1 by (simp add: Let_def)
          have a: "w_log w2 = w_log w @ take 3 ?steps" using l2ok r1 by simp
          show ?thesis unfolding sr by (rule exI [of _ 3]) (simp add: a)
        next
          case r2: (Inr u2)
          then obtain err where "r3 = Inl err" using failed r1 by (cases r3) auto
          then have sr: "snd ?run = w3" using False d up rm r1 r2 by (simp add: Let_def)
          have a: "w_log w3 = w_log w @ take 4 ?steps" using l3ok r1 by simp
          show ?thesis unfolding sr by (rule exI [of _ 4]) (simp add: a)
        qed
      qed
      then obtain j where j: "j \<le> 4" "w_log (snd ?run) = w_log w @ take j ?steps" by blast
      have "w_log (snd ?run) = w_log w @ take j (?steps @ ?rest)" using j by simp
      then show ?thesis unfolding full using res by blast
    qed
  qed
qed

lemma s3_body_cwd:
  "w_cwd (snd (s3_body e client urls s3_bucket prefix skip_existing tmp_dir w)) = w_cwd w"
proof -
  let ?w3 = "print [S ''using tmp_dir'', S tmp_dir]
               (print [] (print [S ''downloading'', N (length urls), S ''files''] w))"
  obtain r4 w4 where sk: "s3_skip_urls client urls s3_bucket prefix skip_existing ?w3 = (r4, w4)"
    by (cases "s3_skip_urls client urls s3_bucket prefix skip_existing ?w3")
  have c4: "w_cwd w4 = w_cwd w" using s3_skip_urls_fieldsD [OF sk] by simp
  show ?thesis
  proof (cases r4)
    case (Inl err)
    then show ?thesis using sk c4 by (simp add: s3_body_def Let_def)
  next
    case (Inr skip_urls)
    obtain r5 w5 where lp:
      "s3_loop e client tmp_dir s3_bucket prefix urls skip_urls w4 = (r5, w5)"
      by (cases "s3_loop e client tmp_dir s3_bucket prefix urls skip_urls w4")
    have "w_cwd w5 = w_cwd w4"
      using s3_loop_cwd [of e client tmp_dir s3_bucket prefix urls skip_urls w4] lp by simp
    then show ?thesis using Inr sk lp c4 by (simp add: s3_body_def Let_def split: sum.splits)
  qed
qed

lemma s3_body_log:
  "\<exists>k. w_log (snd (s3_body e client urls s3_bucket prefix skip_existing tmp_dir w))
          = w_log w @ (if skip_existing then [S3List s3_bucket prefix] else [])
            @ take k (concat (map (pipeline_steps tmp_dir s3_bucket prefix)
                 (filter (\<lambda>u. \<not> s3_skipped client s3_bucket prefix skip_existing u) urls)))
       \<and> (fst (s3_body e client urls s3_bucket prefix skip_existing tmp_dir w) = Inr ()
            \<longrightarrow> length (concat (map (pipeline_steps tmp_dir s3_bucket prefix)
                 (filter (\<lambda>u. \<not> s3_skipped client s3_bucket prefix skip_existing u) urls)))
                \<le> k)"
proof -
  let ?w3 = "print [S ''using tmp_dir'', S tmp_dir]
               (print [] (print [S ''downloading'', N (length urls), S ''files''] w))"
  let ?lst = "if skip_existing then [S3List s3_bucket prefix] else []"
  let ?full = "concat (map (pipeline_steps tmp_dir s3_bucket prefix)
                 (filter (\<lambda>u. \<not> s3_skipped client s3_bucket prefix skip_existing u) urls))"
  let ?run = "s3_body e client urls s3_bucket prefix skip_existing tmp_dir w"
  obtain r4 w4 where sk: "s3_skip_urls client urls s3_bucket prefix skip_existing ?w3 = (r4, w4)"
    by (cases "s3_skip_urls client urls s3_bucket prefix skip_existing ?w3")
  have l4: "w_log w4 = w_log w @ ?lst" using s3_skip_urls_fieldsD [OF sk] by simp
  show ?thesis
  proof (cases r4)
    case (Inl err)
    then have "snd ?run = w4" and "fst ?run \<noteq> Inr ()"
      using sk by (simp_all add: s3_body_def Let_def)
    then have "w_log (snd ?run) = w_log w @ ?lst @ take 0 ?full \<and> fst ?run \<noteq> Inr ()"
      using l4 by simp
    then show ?thesis by blast
  next
    case (Inr skip_urls)
    have flt: "filter (\<lambda>u. u \<notin> skip_urls) urls
                 = filter (\<lambda>u. \<not> s3_skipped client s3_bucket prefix skip_existing u) urls"
      using s3_skip_urls_filter sk Inr by blast
    obtain r5 w5 where lp:
      "s3_loop e client tmp_dir s3_bucket prefix urls skip_urls w4 = (r5, w5)"
      by (cases "s3_loop e client tmp_dir s3_bucket prefix urls skip_urls w4")
    obtain k where k: "w_log w5 = w_log w4 @ take k ?full" "r5 = Inr () \<longrightarrow> length ?full \<le> k"
      using s3_loop_log [of e client tmp_dir s3_bucket prefix urls skip_urls w4] lp flt
      by auto
    have lg: "w_log (snd ?run) = w_log w5" and rs: "fst ?run = r5"
      using Inr sk lp by (simp_all add: s3_body_def Let_def split: sum.splits)
    have "w_log (snd ?run) = w_log w @ ?lst @ take k ?full \<and> (fst ?run = Inr () \<longrightarrow> length ?full \<le> k)"
      using lg rs k l4 by simp
    then show ?thesis by blast
  qed
qed

lemma s3_body_out:
  "\<exists>n. attempted (w_out (snd (s3_body e client urls s3_bucket prefix skip_existing tmp_dir w)))
          = attempted (w_out w)
            @ take n (filter (\<lambda>u. \<not> s3_skipped client s3_bucket prefix skip_existing u) urls)
       \<and> (fst (s3_body e client urls s3_bucket prefix skip_existing tmp_dir w) = Inr ()
            \<longrightarrow> length (filter (\<lambda>u. \<not> s3_skipped client s3_bucket prefix skip_existing u)
                           urls) \<le> n)"
proof -
  let ?w3 = "print [S ''using tmp_dir'', S tmp_dir]
               (print [] (print [S ''downloading'', N (length urls), S ''files''] w))"
  let ?todo = "filter (\<lambda>u. \<not> s3_skipped client s3_bucket prefix skip_existing u) urls"
  let ?run = "s3_body e client urls s3_bucket prefix skip_existing tmp_dir w"
  obtain r4 w4 where sk: "s3_skip_urls client urls s3_bucket prefix skip_existing ?w3 = (r4, w4)"
    by (cases "s3_skip_urls client urls s3_bucket prefix skip_existing ?w3")
  have o4: "attempted (w_out w4) = attempted (w_out w)"
    using s3_skip_urls_fieldsD [OF sk] by simp
  show ?thesis
  proof (cases r4)
    case (Inl err)
    then have "snd ?run = w4" and "fst ?run \<noteq> Inr ()"
      using sk by (simp_all add: s3_body_def Let_def)
    then have "attempted (w_out (snd ?run)) = attempted (w_out w) @ take 0 ?todo
               \<and> fst ?run \<noteq> Inr ()"
      using o4 by simp
    then show ?thesis by blast
  next
    case (Inr skip_urls)
    have flt: "filter (\<lambda>u. u \<notin> skip_urls) urls = ?todo"
      using s3_skip_urls_filter sk Inr by blast
    obtain r5 w5 where lp:
      "s3_loop e client tmp_dir s3_bucket prefix urls skip_urls w4 = (r5, w5)"
      by (cases "s3_loop e client tmp_dir s3_bucket prefix urls skip_urls w4")
    obtain n where n: "attempted (w_out w5) = attempted (w_out w4) @ take n ?todo"
      "r5 = Inr () \<longrightarrow> length ?todo \<le> n"
      using s3_loop_out [of e client tmp_dir s3_bucket prefix urls skip_urls w4] lp flt
      by auto
    have og: "attempted (w_out (snd ?run)) = attempted (w_out w5)" and rs: "fst ?run = r5"
      using Inr sk lp by (auto simp add: s3_body_def Let_def split: sum.splits)
    have "attempted (w_out (snd ?run)) = attempted (w_out w) @ take n ?todo
          \<and> (fst ?run = Inr () \<longrightarrow> length ?todo \<le> n)"
      using og rs n o4 by simp
    then show ?thesis by blast
  qed
qed

lemma download_files_to_s3_unfold:
  "mkdtemp w = (Inr tmp_dir, w1) \<Longrightarrow>
     download_files_to_s3 e client urls s3_bucket prefix skip_existing w
       = (fst (s3_body e client urls s3_bucket prefix skip_existing tmp_dir w1),
          rmtree tmp_dir (snd (s3_body e client urls s3_bucket prefix skip_existing tmp_dir w1)))"
  by (simp add: download_files_to_s3_def split: prod.splits)

subsection \<open>C6: which URLs the pipeline skips\<close>

text \<open>
  Claim C6. For every call of \<^verbatim>\<open>download_files_to_s3\<close>: a URL counts as skipped
  exactly when \<^verbatim>\<open>skip_existing\<close> holds, the listing of the bucket under
  \<^verbatim>\<open>prefix\<close> returned contents, and the key \<^verbatim>\<open>os.path.join(prefix, basename(url))\<close>
  (which is \<^verbatim>\<open>prefix/basename(url)\<close> for a non-empty prefix without a trailing slash,
  \<open>path_join_plain\<close>) is among the keys returned; so a listing without contents,
  and \<^verbatim>\<open>skip_existing=false\<close>, skip nothing. The URLs whose download is started
  are, in every run, an initial part of the URLs of the input that are not skipped, in
  the order of the input, and all of them when the call returns normally.
\<close>

theorem download_files_to_s3_skips_listed_keys:
  "(s3_skipped client s3_bucket prefix skip_existing url \<longleftrightarrow>
      skip_existing \<and> (\<exists>keys. list_objects_v2 client s3_bucket prefix = Inr (Some keys)
                           \<and> path_join prefix (basename url) \<in> set keys))
   \<and> (\<exists>n. attempted (w_out (snd (download_files_to_s3 e client urls s3_bucket prefix
                                      skip_existing w)))
            = attempted (w_out w)
              @ take n (filter (\<lambda>u. \<not> s3_skipped client s3_bucket prefix skip_existing u) urls))
   \<and> (fst (download_files_to_s3 e client urls s3_bucket prefix skip_existing w) = Inr ()
        \<longrightarrow> attempted (w_out (snd (download_files_to_s3 e client urls s3_bucket prefix
                                      skip_existing w)))
            = attempted (w_out w)
              @ filter (\<lambda>u. \<not> s3_skipped client s3_bucket prefix skip_existing u) urls)"
proof -
  let ?todo = "filter (\<lambda>u. \<not> s3_skipped client s3_bucket prefix skip_existing u) urls"
  let ?run = "download_files_to_s3 e client urls s3_bucket prefix skip_existing w"
  have c1: "s3_skipped client s3_bucket prefix skip_existing url \<longleftrightarrow>
      skip_existing \<and> (\<exists>keys. list_objects_v2 client s3_bucket prefix = Inr (Some keys)
                           \<and> path_join prefix (basename url) \<in> set keys)"
    by (auto simp add: s3_skipped_def split: sum.splits option.splits)
  obtain r1 w1 where mk: "mkdtemp w = (r1, w1)" by (cases "mkdtemp w")
  have o1: "w_out w1 = w_out w" using mkdtemp_fieldsD [OF mk] by simp
  have c23: "\<exists>n. attempted (w_out (snd ?run)) = attempted (w_out w) @ take n ?todo
                \<and> (fst ?run = Inr () \<longrightarrow> length ?todo \<le> n)"
  proof (cases r1)
    case (Inl err)
    then have "snd ?run = w1" and "fst ?run \<noteq> Inr ()"
      using mk by (simp_all add: download_files_to_s3_def)
    then have "attempted (w_out (snd ?run)) = attempted (w_out w) @ take 0 ?todo
               \<and> fst ?run \<noteq> Inr ()"
      using o1 by simp
    then show ?thesis by blast
  next
    case (Inr tmp_dir)
    let ?body = "s3_body e client urls s3_bucket prefix skip_existing tmp_dir w1"
    have mk': "mkdtemp w = (Inr tmp_dir, w1)" using mk Inr by simp
    obtain n where n: "attempted (w_out (snd ?body)) = attempted (w_out w1) @ take n ?todo"
      "fst ?body = Inr () \<longrightarrow> length ?todo \<le> n"
      using s3_body_out [of e client urls s3_bucket prefix skip_existing tmp_dir w1] by blast
    have "attempted (w_out (snd ?run)) = attempted (w_out w) @ take n ?todo
          \<and> (fst ?run = Inr () \<longrightarrow> length ?todo \<le> n)"
      using n o1 by (simp add: download_files_to_s3_unfold [OF mk'])
    then show ?thesis by blast
  qed
  then obtain n where n: "attempted (w_out (snd ?run)) = attempted (w_out w) @ take n ?todo"
    "fst ?run = Inr () \<longrightarrow> length ?todo \<le> n" by blast
  have c2: "\<exists>n. attempted (w_out (snd ?run)) = attempted (w_out w) @ take n ?todo"
    using n(1) by blast
  have c3: "fst ?run = Inr () \<longrightarrow> attempted (w_out (snd ?run)) = attempted (w_out w) @ ?todo"
    using n by simp
  from c1 c2 c3 show ?thesis by blast
qed

theorem download_files_to_s3_skips_listed_keys_witness:
  "fst (download_files_to_s3 (example_env 0) (example_client (Some [''p/c.bin'']))
          [''http://x/c.bin'', ''http://x/d.bin''] ''b'' ''p'' True w0) = Inr ()
   \<and> s3_skipped (example_client (Some [''p/c.bin''])) ''b'' ''p'' True ''http://x/c.bin''
   \<and> attempted (w_out (snd (download_files_to_s3 (example_env 0)
          (example_client (Some [''p/c.bin'']))
          [''http://x/c.bin'', ''http://x/d.bin''] ''b'' ''p'' True w0)))
     = [''http://x/d.bin'']"
proof -
  let ?c = "example_client (Some [''p/c.bin''])"
  let ?run = "download_files_to_s3 (example_env 0) ?c
                [''http://x/c.bin'', ''http://x/d.bin''] ''b'' ''p'' True w0"
  have ok: "fst ?run = Inr ()" by code_simp
  have sk: "s3_skipped ?c ''b'' ''p'' True ''http://x/c.bin''" by code_simp
  have todo: "filter (\<lambda>u. \<not> s3_skipped ?c ''b'' ''p'' True u)
                [''http://x/c.bin'', ''http://x/d.bin''] = [''http://x/d.bin'']"
    by code_simp
  have o: "w_out w0 = []" by (simp add: w0_def)
  show ?thesis
    using download_files_to_s3_skips_listed_keys
      [of ?c "''b''" "''p''" True "''http://x/c.bin''" "example_env 0"
          "[''http://x/c.bin'', ''http://x/d.bin'']" w0]
      ok sk todo o
    by simp
qed

subsection \<open>The scratch file through the loop\<close>

text \<open>
  What the loop of \<^verbatim>\<open>download_files_to_s3\<close> does to the file tree. First, the
  directories above a path: \<open>dirname\<close> cuts a path, so the chain of parents is the same
  for any fuel that covers the length of the path, and every parent is shorter than
  the path.
\<close>

lemma take_length_take: "take (length (take k p)) p = take k p"
  by (cases "k \<le> length p") (simp_all add: min_def)

lemma rstrip_sep_take: "\<exists>k. rstrip_sep s = take k s"
proof -
  let ?P = "\<lambda>c. c = CHR ''/''"
  have "dropWhile ?P (rev s) = drop (length (takeWhile ?P (rev s))) (rev s)"
    by (rule dropWhile_eq_drop)
  then have "rstrip_sep s = rev (drop (length (takeWhile ?P (rev s))) (rev s))"
    by (simp add: rstrip_sep_def)
  also have "\<dots> = take (length s - length (takeWhile ?P (rev s))) s"
    by (simp add: rev_drop)
  finally show ?thesis by blast
qed

lemma dirname_take: "dirname p = take (length (dirname p)) p"
proof -
  let ?head = "take (rfind_sep1 p) p"
  have "\<exists>k. dirname p = take k p"
  proof (cases "?head \<noteq> [] \<and> ?head \<noteq> replicate (length ?head) (CHR ''/'')")
    case True
    then have d: "dirname p = rstrip_sep ?head" by (simp add: dirname_def Let_def)
    obtain k where "rstrip_sep ?head = take k ?head" using rstrip_sep_take by blast
    then have "dirname p = take (min k (rfind_sep1 p)) p" using d by simp
    then show ?thesis by blast
  next
    case False
    then have "dirname p = ?head" by (auto simp add: dirname_def Let_def)
    then show ?thesis by blast
  qed
  then obtain k where k: "dirname p = take k p" by blast
  show ?thesis unfolding k by (simp only: take_length_take)
qed

lemma dirname_shorter: "dirname p \<noteq> p \<Longrightarrow> length (dirname p) < length p"
proof -
  assume a: "dirname p \<noteq> p"
  have t: "dirname p = take (length (dirname p)) p" by (rule dirname_take)
  have "length (take (length (dirname p)) p) \<le> length p" by simp
  then have le: "length (dirname p) \<le> length p" using t by simp
  have "length (dirname p) \<noteq> length p"
  proof
    assume "length (dirname p) = length p"
    then have "take (length (dirname p)) p = p" by simp
    then show False using a t by simp
  qed
  then show ?thesis using le by simp
qed

lemma dirname_Nil [simp]: "dirname [] = []"
  by (simp add: dirname_def rfind_sep1_def)

lemma ancestors_upto_fuel:
  "length p \<le> n \<Longrightarrow> length p \<le> m \<Longrightarrow> ancestors_upto n p = ancestors_upto m p"
proof (induction n arbitrary: p m)
  case 0
  then show ?case by (cases m) (simp_all add: Let_def)
next
  case (Suc n)
  show ?case
  proof (cases m)
    case 0
    then show ?thesis using Suc.prems by (simp add: Let_def)
  next
    case (Suc m')
    show ?thesis
    proof (cases "dirname p = p \<or> dirname p = []")
      case True
      then show ?thesis using Suc by (auto simp add: Let_def)
    next
      case False
      then have less: "length (dirname p) < length p" using dirname_shorter by blast
      have "ancestors_upto n (dirname p) = ancestors_upto m' (dirname p)"
        using Suc.IH [of "dirname p" m'] less Suc.prems Suc by simp
      then show ?thesis using False Suc by (simp add: Let_def)
    qed
  qed
qed

lemma ancestors_step:
  assumes "dirname p = d" and "d \<noteq> p" and "d \<noteq> []"
  shows "ancestors p = d # ancestors d"
proof -
  have less: "length d < length p" using assms dirname_shorter by blast
  then obtain k where k: "length p = Suc k" by (cases "length p") auto
  have "ancestors_upto k d = ancestors_upto (length d) d"
    using less k by (intro ancestors_upto_fuel) simp_all
  then show ?thesis using assms k by (simp add: ancestors_def Let_def)
qed

lemma ancestors_upto_shorter: "q \<in> set (ancestors_upto n p) \<Longrightarrow> length q < length p"
proof (induction n arbitrary: p)
  case 0
  then show ?case by simp
next
  case (Suc n)
  show ?case
  proof (cases "dirname p = p \<or> dirname p = []")
    case True
    then show ?thesis using Suc.prems by (auto simp add: Let_def)
  next
    case False
    then have less: "length (dirname p) < length p" using dirname_shorter by blast
    from Suc.prems False have "q = dirname p \<or> q \<in> set (ancestors_upto n (dirname p))"
      by (auto simp add: Let_def)
    then show ?thesis using less Suc.IH [of "dirname p"] by auto
  qed
qed

lemma ancestors_shorter: "q \<in> set (ancestors p) \<Longrightarrow> length q < length p"
  unfolding ancestors_def by (rule ancestors_upto_shorter)

lemma abspath_nonempty: "abspath w p \<noteq> []"
  by (simp add: abspath_def normpath_def Let_def)

text \<open>
  The directory that \<^verbatim>\<open>tempfile.mkdtemp\<close> returns exists, and no regular file lies on
  the way to it.
\<close>

lemma mkdir_created:
  "mkdir path w = (Inr u, w1) \<Longrightarrow>
     path \<noteq> [] \<and> w_fs w1 (abspath w path) = Some Dir
     \<and> \<not> list_ex (\<lambda>q. is_file (w_fs w1 q)) (ancestors (abspath w path))"
  by (auto simp add: mkdir_def Let_def list_ex_iff split: if_splits)

lemma mkdtemp_loop_created:
  "mkdtemp_loop names w = (Inr file, w1) \<Longrightarrow>
     file \<noteq> [] \<and> w_fs w1 (abspath w file) = Some Dir
     \<and> \<not> list_ex (\<lambda>q. is_file (w_fs w1 q)) (ancestors (abspath w file))"
proof (induction names arbitrary: w)
  case Nil
  then show ?case by simp
next
  case (Cons name names)
  let ?w = "w\<lparr>w_tmp := names\<rparr>"
  obtain r w2 where m: "mkdir name ?w = (r, w2)" by (cases "mkdir name ?w")
  have a: "abspath ?w = abspath w" by (rule ext) (simp add: abspath_def)
  have c2: "w_cwd w2 = w_cwd w" using mkdir_fieldsD [OF m] by simp
  show ?case
  proof (cases r)
    case (Inr u)
    then have "file = name" and "w1 = w2" using Cons.prems m by simp_all
    then show ?thesis using mkdir_created [of name ?w u w2] m Inr a by simp
  next
    case (Inl err)
    then have "mkdtemp_loop names w2 = (Inr file, w1)"
      using Cons.prems m by (cases err) simp_all
    then have "file \<noteq> [] \<and> w_fs w1 (abspath w2 file) = Some Dir
     \<and> \<not> list_ex (\<lambda>q. is_file (w_fs w1 q)) (ancestors (abspath w2 file))"
      by (rule Cons.IH)
    moreover have "abspath w2 file = abspath w file" using c2 by (rule abspath_cwd_cong)
    ultimately show ?thesis by simp
  qed
qed

lemma mkdtemp_created:
  "mkdtemp w = (Inr tmp_dir, w1) \<Longrightarrow>
     tmp_dir \<noteq> [] \<and> w_fs w1 (abspath w tmp_dir) = Some Dir
     \<and> \<not> list_ex (\<lambda>q. is_file (w_fs w1 q)) (ancestors (abspath w tmp_dir))"
  unfolding mkdtemp_def by (rule mkdtemp_loop_created)

text \<open>
  One URL of the loop that is not skipped and whose download returned: when the upload
  raises, the loop ends there with the error of the client; when the upload returns,
  \<^verbatim>\<open>os.remove\<close> is called on the scratch file, which deletes it if it is there and
  raises if it is not.
\<close>

lemma s3_loop_upload_fails:
  assumes "url \<notin> skip_urls"
      and "download_file e url (Some (path_join tmp_dir (basename url))) v = (Inr (), v1)"
      and "s3_upload_file client (path_join tmp_dir (basename url)) s3_bucket
             (path_join prefix (basename url)) v1 = Inl err"
  shows "s3_loop e client tmp_dir s3_bucket prefix (url # rest) skip_urls v
           = (Inl err, emit (S3Upload (path_join tmp_dir (basename url)) s3_bucket
                               (path_join prefix (basename url))) v1)"
  using assms by (simp add: Let_def client_upload_file_def)

lemma s3_loop_removes:
  assumes "url \<notin> skip_urls"
      and "download_file e url (Some (path_join tmp_dir (basename url))) v = (Inr (), v1)"
      and "s3_upload_file client (path_join tmp_dir (basename url)) s3_bucket
             (path_join prefix (basename url)) v1 = Inr ()"
      and "os_stat v1 (path_join tmp_dir (basename url)) = Inr (File c)"
  shows "s3_loop e client tmp_dir s3_bucket prefix (url # rest) skip_urls v
           = s3_loop e client tmp_dir s3_bucket prefix rest skip_urls
               ((emit (Remove (path_join tmp_dir (basename url)))
                   (emit (S3Upload (path_join tmp_dir (basename url)) s3_bucket
                            (path_join prefix (basename url))) v1))
                \<lparr>w_fs := (w_fs v1)(abspath v1 (path_join tmp_dir (basename url)) := None)\<rparr>)"
  using assms by (simp add: Let_def client_upload_file_def remove_def)

lemma s3_loop_remove_fails:
  assumes "url \<notin> skip_urls"
      and "download_file e url (Some (path_join tmp_dir (basename url))) v = (Inr (), v1)"
      and "s3_upload_file client (path_join tmp_dir (basename url)) s3_bucket
             (path_join prefix (basename url)) v1 = Inr ()"
      and "os_stat v1 (path_join tmp_dir (basename url)) = Inl err"
  shows "s3_loop e client tmp_dir s3_bucket prefix (url # rest) skip_urls v
           = (Inl err, emit (Remove (path_join tmp_dir (basename url)))
                   (emit (S3Upload (path_join tmp_dir (basename url)) s3_bucket
                            (path_join prefix (basename url))) v1))"
  using assms by (simp add: Let_def client_upload_file_def remove_def)

text \<open>
  One URL of the loop with a fetch that writes the file it is asked for and a client
  that accepts a readable file: every step returns, and the file tree after the step is
  the one before it without the scratch file. Then the same for the whole loop.
\<close>

lemma s3_step_succeeds:
  assumes fetch: "\<forall>u p v. \<exists>rc c. run_process e [''curl'', u, ''--output'', p] v
                    = Inr (rc, (w_fs v)(abspath v p \<mapsto> File c))"
      and upload: "\<forall>p b k v c. read_file p v = Inr c \<longrightarrow> s3_upload_file client p b k v = Inr ()"
      and dir: "w_fs v (abspath v tmp_dir) = Some Dir"
      and anc: "\<not> list_ex (\<lambda>q. is_file (w_fs v q)) (ancestors (abspath v tmp_dir))"
      and ne: "tmp_dir \<noteq> []"
      and d1: "dirname (path_join tmp_dir (basename url)) = tmp_dir"
      and d2: "dirname (abspath v (path_join tmp_dir (basename url))) = abspath v tmp_dir"
      and d3: "abspath v (path_join tmp_dir (basename url)) \<noteq> abspath v tmp_dir"
      and ns: "url \<notin> skip_urls"
  shows "\<exists>v3. s3_loop e client tmp_dir s3_bucket prefix (url # rest) skip_urls v
                = s3_loop e client tmp_dir s3_bucket prefix rest skip_urls v3
              \<and> w_cwd v3 = w_cwd v
              \<and> w_fs v3 = (w_fs v)(abspath v (path_join tmp_dir (basename url)) := None)"
proof -
  let ?local = "path_join tmp_dir (basename url)"
  let ?key = "path_join prefix (basename url)"
  let ?T = "abspath v tmp_dir"
  let ?L = "abspath v ?local"
  let ?v2 = "print [S ''downloading'', S url] (print [] v)"
  let ?v3 = "emit (MakeDirs tmp_dir) ?v2"
  let ?argv = "[''curl'', url, ''--output'', ?local]"
  have Tne: "?T \<noteq> []" by (rule abspath_nonempty)
  have lne: "?local \<noteq> []" using d1 ne by auto
  have ancL: "ancestors ?L = ?T # ancestors ?T" using d2 d3 Tne by (intro ancestors_step) auto
  have Lanc: "?L \<notin> set (ancestors ?T)"
  proof
    assume "?L \<in> set (ancestors ?T)"
    then have "length ?L < length ?T" by (rule ancestors_shorter)
    moreover have "length ?T < length ?L" using dirname_shorter [of ?L] d2 d3 by simp
    ultimately show False by simp
  qed
  have nofile: "\<And>q. q \<in> set (ancestors ?T) \<Longrightarrow> \<not> is_file (w_fs v q)"
    using anc by (simp add: list_ex_iff)
  have mk: "makedirs tmp_dir ?v2 = (Inr (), ?v3)"
    using dir anc ne by (simp add: makedirs_def Let_def)
  obtain rc c where rp: "run_process e ?argv ?v3 = Inr (rc, (w_fs ?v3)(abspath ?v3 ?local \<mapsto> File c))"
    using fetch by blast
  let ?v4 = "(emit (Exec ?argv) ?v3)\<lparr>w_fs := (w_fs v)(?L \<mapsto> File c)\<rparr>"
  have sc: "subprocess_call e ?argv ?v3 = (Inr rc, ?v4)"
    using rp by (simp add: subprocess_call_def Let_def)
  have dl: "download_file e url (Some ?local) v = (Inr (), ?v4)"
    using mk sc by (simp add: download_file_def Let_def d1)
  have a4: "abspath ?v4 ?local = ?L" by (simp add: abspath_def emit_def print_def)
  have nofile4: "\<not> list_ex (\<lambda>q. is_file (w_fs ?v4 q)) (ancestors ?L)"
    using dir d3 Lanc nofile by (auto simp add: ancL list_ex_iff)
  have st: "os_stat ?v4 ?local = Inr (File c)"
    using lne nofile4 by (simp add: os_stat_def Let_def a4)
  then have "read_file ?local ?v4 = Inr c" by (simp add: read_file_def)
  then have up: "s3_upload_file client ?local s3_bucket ?key ?v4 = Inr ()" using upload by blast
  let ?v6 = "(emit (Remove ?local) (emit (S3Upload ?local s3_bucket ?key) ?v4))
               \<lparr>w_fs := (w_fs ?v4)(abspath ?v4 ?local := None)\<rparr>"
  have step: "s3_loop e client tmp_dir s3_bucket prefix (url # rest) skip_urls v
               = s3_loop e client tmp_dir s3_bucket prefix rest skip_urls ?v6"
    using ns dl up st by (rule s3_loop_removes)
  have "w_cwd ?v6 = w_cwd v" by simp
  moreover have "w_fs ?v6 = (w_fs v)(?L := None)" by (simp add: a4)
  ultimately show ?thesis using step by blast
qed

lemma s3_loop_complete:
  assumes fetch: "\<forall>u p v. \<exists>rc c. run_process e [''curl'', u, ''--output'', p] v
                    = Inr (rc, (w_fs v)(abspath v p \<mapsto> File c))"
      and upload: "\<forall>p b k v c. read_file p v = Inr c \<longrightarrow> s3_upload_file client p b k v = Inr ()"
      and ne: "tmp_dir \<noteq> []"
  shows "w_fs v (abspath v tmp_dir) = Some Dir \<Longrightarrow>
         \<not> list_ex (\<lambda>q. is_file (w_fs v q)) (ancestors (abspath v tmp_dir)) \<Longrightarrow>
         (\<forall>u \<in> set urls. u \<notin> skip_urls \<longrightarrow>
            dirname (path_join tmp_dir (basename u)) = tmp_dir
            \<and> dirname (abspath v (path_join tmp_dir (basename u))) = abspath v tmp_dir
            \<and> abspath v (path_join tmp_dir (basename u)) \<noteq> abspath v tmp_dir) \<Longrightarrow>
         fst (s3_loop e client tmp_dir s3_bucket prefix urls skip_urls v) = Inr ()
         \<and> w_fs (snd (s3_loop e client tmp_dir s3_bucket prefix urls skip_urls v))
             = (\<lambda>q. if q \<in> (\<lambda>u. abspath v (path_join tmp_dir (basename u)))
                              ` {u \<in> set urls. u \<notin> skip_urls}
                     then None else w_fs v q)"
proof (induction urls arbitrary: v)
  case Nil
  show ?case by simp
next
  case (Cons url urls)
  show ?case
  proof (cases "url \<in> skip_urls")
    case True
    have "fst (s3_loop e client tmp_dir s3_bucket prefix urls skip_urls v) = Inr ()
         \<and> w_fs (snd (s3_loop e client tmp_dir s3_bucket prefix urls skip_urls v))
             = (\<lambda>q. if q \<in> (\<lambda>u. abspath v (path_join tmp_dir (basename u)))
                              ` {u \<in> set urls. u \<notin> skip_urls}
                     then None else w_fs v q)"
      using Cons.prems by (intro Cons.IH) simp_all
    moreover have "{u \<in> set (url # urls). u \<notin> skip_urls} = {u \<in> set urls. u \<notin> skip_urls}"
      using True by auto
    ultimately show ?thesis using True by simp
  next
    case False
    let ?L = "abspath v (path_join tmp_dir (basename url))"
    let ?T = "abspath v tmp_dir"
    have h: "dirname (path_join tmp_dir (basename url)) = tmp_dir"
            "dirname ?L = ?T" "?L \<noteq> ?T"
      using Cons.prems(3) False by simp_all
    obtain v3 where v3:
      "s3_loop e client tmp_dir s3_bucket prefix (url # urls) skip_urls v
         = s3_loop e client tmp_dir s3_bucket prefix urls skip_urls v3"
      "w_cwd v3 = w_cwd v" "w_fs v3 = (w_fs v)(?L := None)"
      using s3_step_succeeds [OF fetch upload Cons.prems(1) Cons.prems(2) ne h False] by blast
    have ab: "abspath v3 = abspath v" by (rule ext) (simp add: abspath_def v3(2))
    have dir3: "w_fs v3 (abspath v3 tmp_dir) = Some Dir"
      using Cons.prems(1) h(3) by (simp add: ab v3(3))
    have anc3: "\<not> list_ex (\<lambda>q. is_file (w_fs v3 q)) (ancestors (abspath v3 tmp_dir))"
      using Cons.prems(2) by (auto simp add: ab v3(3) list_ex_iff)
    have hyp3: "\<forall>u \<in> set urls. u \<notin> skip_urls \<longrightarrow>
            dirname (path_join tmp_dir (basename u)) = tmp_dir
            \<and> dirname (abspath v3 (path_join tmp_dir (basename u))) = abspath v3 tmp_dir
            \<and> abspath v3 (path_join tmp_dir (basename u)) \<noteq> abspath v3 tmp_dir"
      using Cons.prems(3) by (simp add: ab)
    have ih: "fst (s3_loop e client tmp_dir s3_bucket prefix urls skip_urls v3) = Inr ()
         \<and> w_fs (snd (s3_loop e client tmp_dir s3_bucket prefix urls skip_urls v3))
             = (\<lambda>q. if q \<in> (\<lambda>u. abspath v3 (path_join tmp_dir (basename u)))
                              ` {u \<in> set urls. u \<notin> skip_urls}
                     then None else w_fs v3 q)"
      using dir3 anc3 hyp3 by (rule Cons.IH)
    have set: "{u \<in> set (url # urls). u \<notin> skip_urls}
                 = insert url {u \<in> set urls. u \<notin> skip_urls}"
      using False by auto
    have "(\<lambda>q. if q \<in> (\<lambda>u. abspath v (path_join tmp_dir (basename u)))
                              ` {u \<in> set urls. u \<notin> skip_urls}
                     then None else w_fs v3 q)
          = (\<lambda>q. if q \<in> (\<lambda>u. abspath v (path_join tmp_dir (basename u)))
                              ` {u \<in> set (url # urls). u \<notin> skip_urls}
                     then None else w_fs v q)"
      unfolding set by (rule ext) (simp add: v3(3))
    then show ?thesis using ih unfolding v3(1) ab by simp
  qed
qed

lemma removed_not_exists:
  assumes "os_stat v1 path = Inr (File c)" and "w_cwd v2 = w_cwd v1"
      and "w_fs v2 = (w_fs v1)(abspath v1 path := None)"
  shows "\<not> path_exists v2 path"
proof -
  have a: "abspath v2 path = abspath v1 path" using assms(2) by (rule abspath_cwd_cong)
  show ?thesis using assms(1)
    by (auto simp add: path_exists_def os_stat_def Let_def a assms(3) list_ex_iff
             split: if_splits option.splits)
qed

lemma s3_skip_urls_ok:
  assumes "skip_existing \<longrightarrow> (\<exists>response. list_objects_v2 client s3_bucket prefix = Inr response)"
  shows "\<exists>w4. s3_skip_urls client urls s3_bucket prefix skip_existing w
                = (Inr {u \<in> set urls. s3_skipped client s3_bucket prefix skip_existing u}, w4)
              \<and> w_fs w4 = w_fs w \<and> w_cwd w4 = w_cwd w"
proof (cases skip_existing)
  case False
  then show ?thesis by (simp add: s3_skip_urls_def s3_skipped_def)
next
  case True
  then obtain response where r: "list_objects_v2 client s3_bucket prefix = Inr response"
    using assms by blast
  show ?thesis
  proof (cases response)
    case None
    then show ?thesis
      using True r by (simp add: s3_skip_urls_def s3_skipped_def client_list_objects_v2_def)
  next
    case (Some keys)
    then show ?thesis
      using True r
      by (simp add: s3_skip_urls_def s3_skipped_def client_list_objects_v2_def Let_def)
  qed
qed

lemma s3_body_complete:
  assumes fetch: "\<forall>u p v. \<exists>rc c. run_process e [''curl'', u, ''--output'', p] v
                    = Inr (rc, (w_fs v)(abspath v p \<mapsto> File c))"
      and upload: "\<forall>p b k v c. read_file p v = Inr c \<longrightarrow> s3_upload_file client p b k v = Inr ()"
      and listing: "skip_existing \<longrightarrow>
                      (\<exists>response. list_objects_v2 client s3_bucket prefix = Inr response)"
      and ne: "tmp_dir \<noteq> []"
      and dir: "w_fs w (abspath w tmp_dir) = Some Dir"
      and anc: "\<not> list_ex (\<lambda>q. is_file (w_fs w q)) (ancestors (abspath w tmp_dir))"
      and paths: "\<forall>u \<in> set urls. \<not> s3_skipped client s3_bucket prefix skip_existing u \<longrightarrow>
            dirname (path_join tmp_dir (basename u)) = tmp_dir
            \<and> dirname (abspath w (path_join tmp_dir (basename u))) = abspath w tmp_dir
            \<and> abspath w (path_join tmp_dir (basename u)) \<noteq> abspath w tmp_dir"
  shows "fst (s3_body e client urls s3_bucket prefix skip_existing tmp_dir w) = Inr ()
         \<and> w_fs (snd (s3_body e client urls s3_bucket prefix skip_existing tmp_dir w))
             = (\<lambda>q. if q \<in> (\<lambda>u. abspath w (path_join tmp_dir (basename u)))
                         ` {u \<in> set urls. \<not> s3_skipped client s3_bucket prefix skip_existing u}
                     then None else w_fs w q)"
proof -
  let ?w3 = "print [S ''using tmp_dir'', S tmp_dir]
               (print [] (print [S ''downloading'', N (length urls), S ''files''] w))"
  let ?skip = "{u \<in> set urls. s3_skipped client s3_bucket prefix skip_existing u}"
  obtain w4 where sk: "s3_skip_urls client urls s3_bucket prefix skip_existing ?w3 = (Inr ?skip, w4)"
    and f4: "w_fs w4 = w_fs w" and c4: "w_cwd w4 = w_cwd w"
    using s3_skip_urls_ok [OF listing, of urls ?w3] by auto
  have ab: "abspath w4 = abspath w" by (rule ext) (simp add: abspath_def c4)
  have dir4: "w_fs w4 (abspath w4 tmp_dir) = Some Dir" using dir by (simp add: ab f4)
  have anc4: "\<not> list_ex (\<lambda>q. is_file (w_fs w4 q)) (ancestors (abspath w4 tmp_dir))"
    using anc by (simp add: ab f4)
  have paths4: "\<forall>u \<in> set urls. u \<notin> ?skip \<longrightarrow>
            dirname (path_join tmp_dir (basename u)) = tmp_dir
            \<and> dirname (abspath w4 (path_join tmp_dir (basename u))) = abspath w4 tmp_dir
            \<and> abspath w4 (path_join tmp_dir (basename u)) \<noteq> abspath w4 tmp_dir"
    using paths by (simp add: ab)
  have lp: "fst (s3_loop e client tmp_dir s3_bucket prefix urls ?skip w4) = Inr ()
         \<and> w_fs (snd (s3_loop e client tmp_dir s3_bucket prefix urls ?skip w4))
             = (\<lambda>q. if q \<in> (\<lambda>u. abspath w4 (path_join tmp_dir (basename u)))
                              ` {u \<in> set urls. u \<notin> ?skip}
                     then None else w_fs w4 q)"
    using dir4 anc4 paths4 by (rule s3_loop_complete [OF fetch upload ne])
  have set: "{u \<in> set urls. u \<notin> ?skip}
               = {u \<in> set urls. \<not> s3_skipped client s3_bucket prefix skip_existing u}"
    by auto
  obtain r5 w5 where l5: "s3_loop e client tmp_dir s3_bucket prefix urls ?skip w4 = (r5, w5)"
    by (cases "s3_loop e client tmp_dir s3_bucket prefix urls ?skip w4")
  have r5: "r5 = Inr ()" using lp l5 by simp
  have f5: "w_fs w5 = (\<lambda>q. if q \<in> (\<lambda>u. abspath w (path_join tmp_dir (basename u)))
                         ` {u \<in> set urls. \<not> s3_skipped client s3_bucket prefix skip_existing u}
                     then None else w_fs w q)"
    using lp l5 unfolding set ab f4 by simp
  have "s3_body e client urls s3_bucket prefix skip_existing tmp_dir w
          = (Inr (), print [S ''done''] (print [] w5))"
    using sk l5 r5 by (simp add: s3_body_def Let_def)
  then show ?thesis using f5 by simp
qed

subsection \<open>C7: the order of download, upload and deletion\<close>

text \<open>
  Claim C7. For every call of \<^verbatim>\<open>download_files_to_s3\<close> whose temporary directory
  \<open>tmp_dir\<close> could be created:

  \<^item> The calls issued after that are: the listing (with \<^verbatim>\<open>skip_existing\<close>); then, for
    each URL that is not skipped, in the order of the input, the steps of
    \<open>pipeline_steps\<close>, that is the download into \<^verbatim>\<open>tmp_dir/basename(url)\<close> (parent
    directory, then \<^verbatim>\<open>curl\<close>), the upload of that file under the key
    \<^verbatim>\<open>prefix/basename(url)\<close> and, right after it, the removal of that file; and last
    the removal of \<open>tmp_dir\<close>. A run that ends in an exception issues an initial part
    of these steps, a run that returns normally all of them.

  \<^item> The call does return normally, so that every URL that is not skipped goes through
    all of its steps, when \<^verbatim>\<open>curl\<close> can be started and writes the file it is asked for,
    the client accepts every file that can be read, the listing (if asked for) returns,
    and the scratch path of each such URL names an entry directly in \<open>tmp_dir\<close> (a URL
    that ends in a slash does not: its scratch path is \<open>tmp_dir\<close> itself). At the end
    of the loop, before \<open>tmp_dir\<close> is removed, none of the scratch files exists any
    more, and \<open>tmp_dir\<close> still does.

  \<^item> The deletion follows a successful upload only: for a URL that is not skipped and
    whose download returned, an upload that raises ends the loop with the error of the
    client, straight after the upload, with nothing removed and no further URL started.

  \<^item> For such a URL whose upload returns and whose scratch file is there, the loop goes
    on with the remaining URLs in a world where the scratch file no longer exists.
\<close>

theorem download_files_to_s3_pipeline_order:
  assumes "mkdtemp w = (Inr tmp_dir, w1)"
  shows "(\<exists>k. w_log (snd (download_files_to_s3 e client urls s3_bucket prefix skip_existing w))
            = w_log w1 @ (if skip_existing then [S3List s3_bucket prefix] else [])
              @ take k (concat (map (pipeline_steps tmp_dir s3_bucket prefix)
                  (filter (\<lambda>u. \<not> s3_skipped client s3_bucket prefix skip_existing u) urls)))
              @ [RmTree tmp_dir])
       \<and> (fst (download_files_to_s3 e client urls s3_bucket prefix skip_existing w) = Inr ()
            \<longrightarrow> w_log (snd (download_files_to_s3 e client urls s3_bucket prefix skip_existing w))
            = w_log w1 @ (if skip_existing then [S3List s3_bucket prefix] else [])
              @ concat (map (pipeline_steps tmp_dir s3_bucket prefix)
                  (filter (\<lambda>u. \<not> s3_skipped client s3_bucket prefix skip_existing u) urls))
              @ [RmTree tmp_dir])
       \<and> ((\<forall>u p v. \<exists>rc c. run_process e [''curl'', u, ''--output'', p] v
                               = Inr (rc, (w_fs v)(abspath v p \<mapsto> File c)))
           \<and> (\<forall>p b k v c. read_file p v = Inr c \<longrightarrow> s3_upload_file client p b k v = Inr ())
           \<and> (skip_existing \<longrightarrow>
                 (\<exists>response. list_objects_v2 client s3_bucket prefix = Inr response))
           \<and> (\<forall>u \<in> set urls. \<not> s3_skipped client s3_bucket prefix skip_existing u \<longrightarrow>
                 dirname (path_join tmp_dir (basename u)) = tmp_dir
                 \<and> dirname (abspath w (path_join tmp_dir (basename u))) = abspath w tmp_dir
                 \<and> abspath w (path_join tmp_dir (basename u)) \<noteq> abspath w tmp_dir)
           \<longrightarrow> fst (download_files_to_s3 e client urls s3_bucket prefix skip_existing w) = Inr ()
             \<and> (\<forall>u \<in> set urls. \<not> s3_skipped client s3_bucket prefix skip_existing u \<longrightarrow>
                   w_fs (snd (s3_body e client urls s3_bucket prefix skip_existing tmp_dir w1))
                     (abspath w (path_join tmp_dir (basename u))) = None)
             \<and> w_fs (snd (s3_body e client urls s3_bucket prefix skip_existing tmp_dir w1))
                 (abspath w tmp_dir) = Some Dir)
       \<and> (url \<notin> skip_urls
           \<and> download_file e url (Some (path_join tmp_dir (basename url))) v = (Inr (), v1)
           \<and> s3_upload_file client (path_join tmp_dir (basename url)) s3_bucket
                (path_join prefix (basename url)) v1 = Inl err
           \<longrightarrow> s3_loop e client tmp_dir s3_bucket prefix (url # rest) skip_urls v
                 = (Inl err, emit (S3Upload (path_join tmp_dir (basename url)) s3_bucket
                                     (path_join prefix (basename url))) v1))
       \<and> (url \<notin> skip_urls
           \<and> download_file e url (Some (path_join tmp_dir (basename url))) v = (Inr (), v1)
           \<and> s3_upload_file client (path_join tmp_dir (basename url)) s3_bucket
                (path_join prefix (basename url)) v1 = Inr ()
           \<and> os_stat v1 (path_join tmp_dir (basename url)) = Inr (File c)
           \<longrightarrow> s3_loop e client tmp_dir s3_bucket prefix (url # rest) skip_urls v
                 = s3_loop e client tmp_dir s3_bucket prefix rest skip_urls
                     ((emit (Remove (path_join tmp_dir (basename url)))
                        (emit (S3Upload (path_join tmp_dir (basename url)) s3_bucket
                                 (path_join prefix (basename url))) v1))
                      \<lparr>w_fs := (w_fs v1)(abspath v1 (path_join tmp_dir (basename url)) := None)\<rparr>)
             \<and> \<not> path_exists
                   ((emit (Remove (path_join tmp_dir (basename url)))
                      (emit (S3Upload (path_join tmp_dir (basename url)) s3_bucket
                               (path_join prefix (basename url))) v1))
                    \<lparr>w_fs := (w_fs v1)(abspath v1 (path_join tmp_dir (basename url)) := None)\<rparr>)
                   (path_join tmp_dir (basename url)))"
proof -
  let ?full = "concat (map (pipeline_steps tmp_dir s3_bucket prefix)
                 (filter (\<lambda>u. \<not> s3_skipped client s3_bucket prefix skip_existing u) urls))"
  let ?lst = "if skip_existing then [S3List s3_bucket prefix] else []"
  let ?body = "s3_body e client urls s3_bucket prefix skip_existing tmp_dir w1"
  let ?run = "download_files_to_s3 e client urls s3_bucket prefix skip_existing w"
  let ?local = "\<lambda>u. path_join tmp_dir (basename u)"
  let ?key = "\<lambda>u. path_join prefix (basename u)"
  let ?v3 = "(emit (Remove (?local url)) (emit (S3Upload (?local url) s3_bucket (?key url)) v1))
               \<lparr>w_fs := (w_fs v1)(abspath v1 (?local url) := None)\<rparr>"
  obtain k where k: "w_log (snd ?body) = w_log w1 @ ?lst @ take k ?full"
    "fst ?body = Inr () \<longrightarrow> length ?full \<le> k"
    using s3_body_log [of e client urls s3_bucket prefix skip_existing tmp_dir w1] by blast
  have lg: "w_log (snd ?run) = w_log (snd ?body) @ [RmTree tmp_dir]" and rs: "fst ?run = fst ?body"
    by (simp_all add: download_files_to_s3_unfold [OF assms])
  have a: "w_log (snd ?run) = w_log w1 @ ?lst @ take k ?full @ [RmTree tmp_dir]"
    using lg k(1) by simp
  have c1: "\<exists>k. w_log (snd ?run) = w_log w1 @ ?lst @ take k ?full @ [RmTree tmp_dir]"
    using a by blast
  have c2: "fst ?run = Inr () \<longrightarrow> w_log (snd ?run) = w_log w1 @ ?lst @ ?full @ [RmTree tmp_dir]"
    using a rs k(2) by simp
  have c3: "fst ?run = Inr ()
      \<and> (\<forall>u \<in> set urls. \<not> s3_skipped client s3_bucket prefix skip_existing u \<longrightarrow>
            w_fs (snd ?body) (abspath w (?local u)) = None)
      \<and> w_fs (snd ?body) (abspath w tmp_dir) = Some Dir"
    if fetch: "\<forall>u p v. \<exists>rc c. run_process e [''curl'', u, ''--output'', p] v
                               = Inr (rc, (w_fs v)(abspath v p \<mapsto> File c))"
      and upload: "\<forall>p b k v c. read_file p v = Inr c \<longrightarrow> s3_upload_file client p b k v = Inr ()"
      and listing: "skip_existing \<longrightarrow>
                      (\<exists>response. list_objects_v2 client s3_bucket prefix = Inr response)"
      and paths: "\<forall>u \<in> set urls. \<not> s3_skipped client s3_bucket prefix skip_existing u \<longrightarrow>
                 dirname (?local u) = tmp_dir
                 \<and> dirname (abspath w (?local u)) = abspath w tmp_dir
                 \<and> abspath w (?local u) \<noteq> abspath w tmp_dir"
  proof -
    have cw: "w_cwd w1 = w_cwd w" using mkdtemp_fieldsD [OF assms] by simp
    have ab: "abspath w1 = abspath w" by (rule ext) (simp add: abspath_def cw)
    have ne: "tmp_dir \<noteq> []" and dir: "w_fs w1 (abspath w1 tmp_dir) = Some Dir"
      and anc: "\<not> list_ex (\<lambda>q. is_file (w_fs w1 q)) (ancestors (abspath w1 tmp_dir))"
      using mkdtemp_created [OF assms] by (simp_all add: ab)
    have paths1: "\<forall>u \<in> set urls. \<not> s3_skipped client s3_bucket prefix skip_existing u \<longrightarrow>
                 dirname (?local u) = tmp_dir
                 \<and> dirname (abspath w1 (?local u)) = abspath w1 tmp_dir
                 \<and> abspath w1 (?local u) \<noteq> abspath w1 tmp_dir"
      using paths by (simp add: ab)
    have b: "fst ?body = Inr ()
         \<and> w_fs (snd ?body)
             = (\<lambda>q. if q \<in> (\<lambda>u. abspath w1 (?local u))
                         ` {u \<in> set urls. \<not> s3_skipped client s3_bucket prefix skip_existing u}
                     then None else w_fs w1 q)"
      by (rule s3_body_complete [OF fetch upload listing ne dir anc paths1])
    have r: "fst ?run = Inr ()" using b rs by simp
    have gone: "\<forall>u \<in> set urls. \<not> s3_skipped client s3_bucket prefix skip_existing u \<longrightarrow>
            w_fs (snd ?body) (abspath w (?local u)) = None"
      using b by (auto simp add: ab)
    have "abspath w tmp_dir \<notin> (\<lambda>u. abspath w (?local u))
                         ` {u \<in> set urls. \<not> s3_skipped client s3_bucket prefix skip_existing u}"
      using paths by auto
    then have kept: "w_fs (snd ?body) (abspath w tmp_dir) = Some Dir"
      using b dir by (simp add: ab)
    from r gone kept show ?thesis by blast
  qed
  have c4: "s3_loop e client tmp_dir s3_bucket prefix (url # rest) skip_urls v
              = (Inl err, emit (S3Upload (?local url) s3_bucket (?key url)) v1)"
    if "url \<notin> skip_urls" and "download_file e url (Some (?local url)) v = (Inr (), v1)"
      and "s3_upload_file client (?local url) s3_bucket (?key url) v1 = Inl err"
    using that by (rule s3_loop_upload_fails)
  have c5: "s3_loop e client tmp_dir s3_bucket prefix (url # rest) skip_urls v
              = s3_loop e client tmp_dir s3_bucket prefix rest skip_urls ?v3
            \<and> \<not> path_exists ?v3 (?local url)"
    if h: "url \<notin> skip_urls" "download_file e url (Some (?local url)) v = (Inr (), v1)"
      "s3_upload_file client (?local url) s3_bucket (?key url) v1 = Inr ()"
      "os_stat v1 (?local url) = Inr (File c)"
  proof -
    have s: "s3_loop e client tmp_dir s3_bucket prefix (url # rest) skip_urls v
              = s3_loop e client tmp_dir s3_bucket prefix rest skip_urls ?v3"
      using h by (rule s3_loop_removes)
    have "\<not> path_exists ?v3 (?local url)"
      by (rule removed_not_exists [OF h(4)]) simp_all
    with s show ?thesis by blast
  qed
  from c1 c2 c3 c4 c5 show ?thesis by blast
qed

theorem download_files_to_s3_pipeline_order_witness:
  "fst (download_files_to_s3 (example_env 0) (example_client (Some [''p/s.bin'']))
          [''http://x/c.bin'', ''http://x/s.bin'', ''http://x/d.bin''] ''b'' ''p'' True w0) = Inr ()
   \<and> w_log (snd (download_files_to_s3 (example_env 0) (example_client (Some [''p/s.bin'']))
          [''http://x/c.bin'', ''http://x/s.bin'', ''http://x/d.bin''] ''b'' ''p'' True w0))
     = [MkDir ''/tmp/tmpk3x9a2mq'', S3List ''b'' ''p'',
        MakeDirs ''/tmp/tmpk3x9a2mq'',
        Exec [''curl'', ''http://x/c.bin'', ''--output'', ''/tmp/tmpk3x9a2mq/c.bin''],
        S3Upload ''/tmp/tmpk3x9a2mq/c.bin'' ''b'' ''p/c.bin'',
        Remove ''/tmp/tmpk3x9a2mq/c.bin'',
        MakeDirs ''/tmp/tmpk3x9a2mq'',
        Exec [''curl'', ''http://x/d.bin'', ''--output'', ''/tmp/tmpk3x9a2mq/d.bin''],
        S3Upload ''/tmp/tmpk3x9a2mq/d.bin'' ''b'' ''p/d.bin'',
        Remove ''/tmp/tmpk3x9a2mq/d.bin'',
        RmTree ''/tmp/tmpk3x9a2mq'']
   \<and> w_fs (snd (s3_body (example_env 0) (example_client (Some [''p/s.bin'']))
          [''http://x/c.bin'', ''http://x/s.bin'', ''http://x/d.bin''] ''b'' ''p'' True
          ''/tmp/tmpk3x9a2mq'' (snd (mkdtemp w0)))) ''/tmp/tmpk3x9a2mq/c.bin'' = None
   \<and> w_fs (snd (s3_body (example_env 0) (example_client (Some [''p/s.bin'']))
          [''http://x/c.bin'', ''http://x/s.bin'', ''http://x/d.bin''] ''b'' ''p'' True
          ''/tmp/tmpk3x9a2mq'' (snd (mkdtemp w0)))) ''/tmp/tmpk3x9a2mq/d.bin'' = None
   \<and> w_fs (snd (s3_body (example_env 0) (example_client (Some [''p/s.bin'']))
          [''http://x/c.bin'', ''http://x/s.bin'', ''http://x/d.bin''] ''b'' ''p'' True
          ''/tmp/tmpk3x9a2mq'' (snd (mkdtemp w0)))) ''/tmp/tmpk3x9a2mq'' = Some Dir
   \<and> read_file ''/tmp/tmpk3x9a2mq/c.bin''
        (snd (download_file (example_env 0) ''http://x/c.bin'' (Some ''/tmp/tmpk3x9a2mq/c.bin'')
                (snd (mkdtemp w0)))) = Inr ''content of http://x/c.bin''
   \<and> \<not> path_exists
         (snd (s3_loop (example_env 0) (example_client None) ''/tmp/tmpk3x9a2mq'' ''b'' ''p''
                 [''http://x/c.bin''] {} (snd (mkdtemp w0))))
         ''/tmp/tmpk3x9a2mq/c.bin''
   \<and> fst (s3_loop (example_env 22) (example_client None) ''/tmp/tmpk3x9a2mq'' ''b'' ''p''
            [''http://x/c.bin'', ''http://x/d.bin''] {} (snd (mkdtemp w0)))
       = Inl (FileNotFoundError ''/tmp/tmpk3x9a2mq/c.bin'')
   \<and> w_log (snd (s3_loop (example_env 22) (example_client None) ''/tmp/tmpk3x9a2mq'' ''b'' ''p''
            [''http://x/c.bin'', ''http://x/d.bin''] {} (snd (mkdtemp w0))))
       = [MkDir ''/tmp/tmpk3x9a2mq'', MakeDirs ''/tmp/tmpk3x9a2mq'',
          Exec [''curl'', ''http://x/c.bin'', ''--output'', ''/tmp/tmpk3x9a2mq/c.bin''],
          S3Upload ''/tmp/tmpk3x9a2mq/c.bin'' ''b'' ''p/c.bin'']"
proof -
  let ?tmp = "''/tmp/tmpk3x9a2mq''"
  let ?c = "''http://x/c.bin''" and ?s = "''http://x/s.bin''" and ?d = "''http://x/d.bin''"
  let ?lc = "''/tmp/tmpk3x9a2mq/c.bin''" and ?ld = "''/tmp/tmpk3x9a2mq/d.bin''"
  let ?cl = "example_client (Some [''p/s.bin''])"
  let ?urls = "[?c, ?s, ?d]"
  let ?w1 = "snd (mkdtemp w0)"
  let ?run = "download_files_to_s3 (example_env 0) ?cl ?urls ''b'' ''p'' True w0"
  let ?body = "s3_body (example_env 0) ?cl ?urls ''b'' ''p'' True ?tmp ?w1"
  have t: "fst (mkdtemp w0) = Inr ?tmp" by code_simp
  then have mk: "mkdtemp w0 = (Inr ?tmp, ?w1)" by (metis prod.collapse)
  have l1: "w_log ?w1 = [MkDir ?tmp]" by code_simp
  have pc: "path_join ?tmp (basename ?c) = ?lc" and pd: "path_join ?tmp (basename ?d) = ?ld"
    and kc: "path_join ''p'' (basename ?c) = ''p/c.bin''"
    by code_simp+
  have ac: "abspath w0 ?lc = ?lc" and ad: "abspath w0 ?ld = ?ld" and at: "abspath w0 ?tmp = ?tmp"
    and dc: "dirname ?lc = ?tmp" and dd: "dirname ?ld = ?tmp"
    by code_simp+
  have sk: "\<not> s3_skipped ?cl ''b'' ''p'' True ?c" "s3_skipped ?cl ''b'' ''p'' True ?s"
    "\<not> s3_skipped ?cl ''b'' ''p'' True ?d"
    by code_simp+
  have steps: "concat (map (pipeline_steps ?tmp ''b'' ''p'')
                 (filter (\<lambda>u. \<not> s3_skipped ?cl ''b'' ''p'' True u) ?urls))
               = [MakeDirs ?tmp, Exec [''curl'', ?c, ''--output'', ?lc],
                  S3Upload ?lc ''b'' ''p/c.bin'', Remove ?lc,
                  MakeDirs ?tmp, Exec [''curl'', ?d, ''--output'', ?ld],
                  S3Upload ?ld ''b'' ''p/d.bin'', Remove ?ld]"
    by code_simp
  txt \<open>The run over three URLs, one of them listed in the bucket.\<close>
  note A = download_files_to_s3_pipeline_order [OF mk, where e = "example_env 0" and client = ?cl and urls = ?urls
             and s3_bucket = "''b''" and prefix = "''p''" and skip_existing = True]
  have fetch: "\<forall>u p v. \<exists>rc c. run_process (example_env 0) [''curl'', u, ''--output'', p] v
                               = Inr (rc, (w_fs v)(abspath v p \<mapsto> File c))"
  proof (intro allI)
    fix u p v
    show "\<exists>rc c. run_process (example_env 0) [''curl'', u, ''--output'', p] v
                               = Inr (rc, (w_fs v)(abspath v p \<mapsto> File c))"
      by (rule exI [of _ 0], rule exI [of _ "''content of '' @ u"])
         (simp add: example_env_def example_process_def)
  qed
  have upload: "\<forall>p b k v c. read_file p v = Inr c \<longrightarrow> s3_upload_file ?cl p b k v = Inr ()"
    by (simp add: example_client_def)
  have listing: "True \<longrightarrow> (\<exists>response. list_objects_v2 ?cl ''b'' ''p'' = Inr response)"
    by (simp add: example_client_def)
  have paths: "\<forall>u \<in> set ?urls. \<not> s3_skipped ?cl ''b'' ''p'' True u \<longrightarrow>
                 dirname (path_join ?tmp (basename u)) = ?tmp
                 \<and> dirname (abspath w0 (path_join ?tmp (basename u))) = abspath w0 ?tmp
                 \<and> abspath w0 (path_join ?tmp (basename u)) \<noteq> abspath w0 ?tmp"
    using sk by (simp add: pc pd ac ad at dc dd)
  have fin: "fst ?run = Inr ()
      \<and> (\<forall>u \<in> set ?urls. \<not> s3_skipped ?cl ''b'' ''p'' True u \<longrightarrow>
            w_fs (snd ?body) (abspath w0 (path_join ?tmp (basename u))) = None)
      \<and> w_fs (snd ?body) (abspath w0 ?tmp) = Some Dir"
    using A [THEN conjunct2, THEN conjunct2, THEN conjunct1] fetch upload listing paths
    by blast
  have r1: "fst ?run = Inr ()" using fin by blast
  have r2: "w_log (snd ?run)
     = [MkDir ?tmp, S3List ''b'' ''p'',
        MakeDirs ?tmp, Exec [''curl'', ?c, ''--output'', ?lc],
        S3Upload ?lc ''b'' ''p/c.bin'', Remove ?lc,
        MakeDirs ?tmp, Exec [''curl'', ?d, ''--output'', ?ld],
        S3Upload ?ld ''b'' ''p/d.bin'', Remove ?ld, RmTree ?tmp]"
    using A [THEN conjunct2, THEN conjunct1] r1 l1 steps by simp
  have r3: "w_fs (snd ?body) ?lc = None" and r4: "w_fs (snd ?body) ?ld = None"
    and r5: "w_fs (snd ?body) ?tmp = Some Dir"
    using fin sk by (simp_all add: pc pd ac ad at)
  txt \<open>One URL whose fetch and upload succeed: the scratch file is there after the fetch
    and gone when the loop goes on.\<close>
  let ?v1 = "snd (download_file (example_env 0) ?c (Some (path_join ?tmp (basename ?c))) ?w1)"
  have g1: "fst (download_file (example_env 0) ?c (Some (path_join ?tmp (basename ?c))) ?w1)
              = Inr ()"
    by code_simp
  then have g1': "download_file (example_env 0) ?c (Some (path_join ?tmp (basename ?c))) ?w1
                    = (Inr (), ?v1)"
    by (metis prod.collapse)
  have g2: "s3_upload_file (example_client None) (path_join ?tmp (basename ?c)) ''b''
              (path_join ''p'' (basename ?c)) ?v1 = Inr ()"
    by code_simp
  have g3: "os_stat ?v1 (path_join ?tmp (basename ?c)) = Inr (File ''content of http://x/c.bin'')"
    by code_simp
  have g4: "read_file ?lc (snd (download_file (example_env 0) ?c (Some ?lc) ?w1))
              = Inr ''content of http://x/c.bin''"
    by code_simp
  note B = download_files_to_s3_pipeline_order [OF mk, where e = "example_env 0" and client = "example_client None"
             and s3_bucket = "''b''" and prefix = "''p''" and url = ?c and skip_urls = "{}"
             and v = ?w1 and ?v1.0 = ?v1 and rest = "[]"
             and c = "''content of http://x/c.bin''"]
  have r6: "\<not> path_exists
         (snd (s3_loop (example_env 0) (example_client None) ?tmp ''b'' ''p'' [?c] {} ?w1)) ?lc"
    using B [THEN conjunct2, THEN conjunct2, THEN conjunct2, THEN conjunct2] g1' g2 g3
    by (simp add: pc)
  txt \<open>One URL whose fetch writes nothing: the upload raises, nothing is removed and
    the next URL is not started.\<close>
  let ?u1 = "snd (download_file (example_env 22) ?c (Some (path_join ?tmp (basename ?c))) ?w1)"
  have h1: "fst (download_file (example_env 22) ?c (Some (path_join ?tmp (basename ?c))) ?w1)
              = Inr ()"
    by code_simp
  then have h1': "download_file (example_env 22) ?c (Some (path_join ?tmp (basename ?c))) ?w1
                    = (Inr (), ?u1)"
    by (metis prod.collapse)
  have h2: "s3_upload_file (example_client None) (path_join ?tmp (basename ?c)) ''b''
              (path_join ''p'' (basename ?c)) ?u1 = Inl (FileNotFoundError ?lc)"
    by code_simp
  have h3: "w_log ?u1 = [MkDir ?tmp, MakeDirs ?tmp, Exec [''curl'', ?c, ''--output'', ?lc]]"
    by code_simp
  note C = download_files_to_s3_pipeline_order [OF mk, where e = "example_env 22" and client = "example_client None"
             and s3_bucket = "''b''" and prefix = "''p''" and url = ?c and skip_urls = "{}"
             and v = ?w1 and ?v1.0 = ?u1 and rest = "[?d]"
             and err = "FileNotFoundError ?lc"]
  have f: "s3_loop (example_env 22) (example_client None) ?tmp ''b'' ''p'' [?c, ?d] {} ?w1
             = (Inl (FileNotFoundError ?lc),
                emit (S3Upload (path_join ?tmp (basename ?c)) ''b''
                        (path_join ''p'' (basename ?c))) ?u1)"
    using C [THEN conjunct2, THEN conjunct2, THEN conjunct2, THEN conjunct1] h1' h2
    by simp
  have r7: "fst (s3_loop (example_env 22) (example_client None) ?tmp ''b'' ''p'' [?c, ?d] {} ?w1)
              = Inl (FileNotFoundError ?lc)"
    unfolding f by simp
  have r8: "w_log (snd (s3_loop (example_env 22) (example_client None) ?tmp ''b'' ''p''
                          [?c, ?d] {} ?w1))
              = [MkDir ?tmp, MakeDirs ?tmp, Exec [''curl'', ?c, ''--output'', ?lc],
                 S3Upload ?lc ''b'' ''p/c.bin'']"
    unfolding f using h3 by (simp add: pc kc emit_def)
  from r1 r2 r3 r4 r5 g4 r6 r7 r8 show ?thesis by blast
qed

text \<open>
  The scratch directory of \<^verbatim>\<open>download_files_to_s3\<close> is released on every exit path:
  once it was created, neither the directory nor anything below it exists when the call
  is over, whether it returned or raised.
\<close>

theorem download_files_to_s3_releases_tmp_dir:
  assumes "mkdtemp w = (Inr tmp_dir, w1)" and "abspath w tmp_dir \<in> set (q # ancestors q)"
  shows "w_fs (snd (download_files_to_s3 e client urls s3_bucket prefix skip_existing w)) q = None"
proof -
  let ?w2 = "snd (s3_body e client urls s3_bucket prefix skip_existing tmp_dir w1)"
  have "w_cwd ?w2 = w_cwd w" using s3_body_cwd mkdtemp_fieldsD [OF assms(1)] by simp
  then have "abspath ?w2 tmp_dir = abspath w tmp_dir" by (rule abspath_cwd_cong)
  then show ?thesis
    using assms(2) by (simp add: download_files_to_s3_unfold [OF assms(1)] rmtree_removes)
qed

theorem download_files_to_s3_releases_tmp_dir_witness:
  "fst (download_files_to_s3 (example_env 22) (example_client None) [''http://x/c.bin'']
          ''b'' ''p'' True w0) = Inl (FileNotFoundError ''/tmp/tmpk3x9a2mq/c.bin'')
   \<and> w_fs (snd (download_files_to_s3 (example_env 22) (example_client None)
          [''http://x/c.bin''] ''b'' ''p'' True w0)) ''/tmp/tmpk3x9a2mq'' = None
   \<and> w_fs (snd (download_files_to_s3 (example_env 0) (example_client None)
          [''http://x/c.bin''] ''b'' ''p'' True w0)) ''/tmp/tmpk3x9a2mq/c.bin'' = None"
proof -
  have t: "fst (mkdtemp w0) = Inr ''/tmp/tmpk3x9a2mq''" by code_simp
  then have mk: "mkdtemp w0 = (Inr ''/tmp/tmpk3x9a2mq'', snd (mkdtemp w0))"
    by (metis prod.collapse)
  have a1: "abspath w0 ''/tmp/tmpk3x9a2mq''
              \<in> set (''/tmp/tmpk3x9a2mq'' # ancestors ''/tmp/tmpk3x9a2mq'')"
    by code_simp
  have a2: "abspath w0 ''/tmp/tmpk3x9a2mq''
              \<in> set (''/tmp/tmpk3x9a2mq/c.bin'' # ancestors ''/tmp/tmpk3x9a2mq/c.bin'')"
    by code_simp
  have r: "fst (download_files_to_s3 (example_env 22) (example_client None) [''http://x/c.bin'']
          ''b'' ''p'' True w0) = Inl (FileNotFoundError ''/tmp/tmpk3x9a2mq/c.bin'')"
    by code_simp
  show ?thesis
    using r download_files_to_s3_releases_tmp_dir [OF mk a1]
      download_files_to_s3_releases_tmp_dir [OF mk a2]
    by simp
qed

section \<open>Hashing\<close>

lemma get_file_hashes_list_all2:
  "get_file_hashes e w paths = Inr hs
     \<longleftrightarrow> list_all2 (\<lambda>p h. get_file_hash e w p = Inr h) paths hs"
proof (induction paths arbitrary: hs)
  case Nil
  show ?case by auto
next
  case (Cons p paths)
  show ?case
  proof (cases "get_file_hash e w p")
    case (Inl err)
    then show ?thesis by (auto simp add: list_all2_Cons1)
  next
    case h: (Inr h)
    show ?thesis
    proof (cases "get_file_hashes e w paths")
      case (Inl err)
      then show ?thesis by (auto simp add: list_all2_Cons1 h Cons.IH [symmetric])
    next
      case (Inr hs')
      then show ?thesis by (auto simp add: list_all2_Cons1 h Cons.IH [symmetric])
    qed
  qed
qed

subsection \<open>C9: order and length of the hashes\<close>

text \<open>
  Claim C9. \<^verbatim>\<open>get_file_hashes(paths)\<close> returns the list \<open>hs\<close> exactly when
  \<open>hs\<close> has the length of \<open>paths\<close> and, for every index, its element is what
  \<^verbatim>\<open>get_file_hash\<close> returns on the path at that index; in particular it returns
  whenever \<^verbatim>\<open>get_file_hash\<close> returns on every path, and raises otherwise.
\<close>

theorem get_file_hashes_order_and_length:
  "get_file_hashes e w paths = Inr hs
     \<longleftrightarrow> length hs = length paths
         \<and> (\<forall>i < length paths. get_file_hash e w (paths ! i) = Inr (hs ! i))"
  by (auto simp add: get_file_hashes_list_all2 list_all2_conv_all_nth)

theorem get_file_hashes_order_and_length_witness:
  "get_file_hashes (example_env 0) w0 [''notes.txt'', ''/home/user/notes.txt'']
     = Inr [''md5 of hello'', ''md5 of hello'']
   \<and> get_file_hash (example_env 0) w0 ''notes.txt'' = Inr ''md5 of hello''
   \<and> get_file_hash (example_env 0) w0 ''/home/user/notes.txt'' = Inr ''md5 of hello''"
proof -
  have a: "get_file_hashes (example_env 0) w0 [''notes.txt'', ''/home/user/notes.txt'']
             = Inr [''md5 of hello'', ''md5 of hello'']"
    by code_simp
  have b: "\<forall>i < length [''notes.txt'', ''/home/user/notes.txt''].
             get_file_hash (example_env 0) w0 ([''notes.txt'', ''/home/user/notes.txt''] ! i)
               = Inr ([''md5 of hello'', ''md5 of hello''] ! i)"
    using get_file_hashes_order_and_length [THEN iffD1, OF a] by blast
  have "get_file_hash (example_env 0) w0 ''notes.txt'' = Inr ''md5 of hello''"
    using b [rule_format, of 0] by simp
  moreover have "get_file_hash (example_env 0) w0 ''/home/user/notes.txt'' = Inr ''md5 of hello''"
    using b [rule_format, of 1] by simp
  ultimately show ?thesis using a by simp
qed

section \<open>The directory uploader\<close>

lemma upload_directory_log:
  "w_log (snd (upload_directory e local_path bucket_path None remove_deleted_files w))
     = w_log w @ [Exec [''rclone'', if remove_deleted_files then ''sync'' else ''copy'',
                        local_path, ''paradigm-data-portal:'' @ bucket_path, ''-v'',
                        ''--exclude'', exclude_pattern]]"
proof -
  let ?cmd = "[''rclone'', if remove_deleted_files then ''sync'' else ''copy'',
               local_path, ''paradigm-data-portal:'' @ bucket_path, ''-v'',
               ''--exclude'', exclude_pattern]"
  let ?w3 = "print [] (print [S ''to bucket path:'', S bucket_path]
               (print [S ''uploading directory:'', S local_path] w))"
  obtain r w7 where c: "subprocess_call e ?cmd ?w3 = (r, w7)"
    by (cases "subprocess_call e ?cmd ?w3")
  have "w_log (snd (subprocess_call e ?cmd ?w3)) = w_log ?w3 @ [Exec ?cmd]"
    by (rule subprocess_call_fields(1))
  then have l: "w_log w7 = w_log w @ [Exec ?cmd]" unfolding c by simp
  have "snd (upload_directory e local_path bucket_path None remove_deleted_files w) = w7"
    using c by (cases r) (simp_all add: upload_directory_def Let_def)
  then show ?thesis using l by simp
qed

subsection \<open>C3: temporary resources\<close>

text \<open>
  Claim C3 says that no temporary directory or file created by a call survives the
  call. \<^verbatim>\<open>upload_directory\<close> creates its directory with \<^verbatim>\<open>tempfile.mkdtemp()\<close> and
  removes neither the directory nor the list file. Run with
  \<^verbatim>\<open>dir_files=['a.txt', 'b.txt']\<close>: the call returns normally; the directory
  \<^verbatim>\<open>/tmp/tmpk3x9a2mq\<close>, which did not exist before, and the file
  \<^verbatim>\<open>file_list.txt\<close> in it exist afterwards; and the calls issued are the creation of
  the directory, the writing of the file and \<^verbatim>\<open>rclone\<close>, no removal.
\<close>

theorem upload_directory_leaves_temp_file:
  "fst (upload_directory (example_env 0) ''/data'' ''bucket/path''
          (Some [''a.txt'', ''b.txt'']) False w0) = Inr ()
   \<and> w_fs w0 ''/tmp/tmpk3x9a2mq'' = None
   \<and> w_fs (snd (upload_directory (example_env 0) ''/data'' ''bucket/path''
          (Some [''a.txt'', ''b.txt'']) False w0)) ''/tmp/tmpk3x9a2mq'' = Some Dir
   \<and> w_fs (snd (upload_directory (example_env 0) ''/data'' ''bucket/path''
          (Some [''a.txt'', ''b.txt'']) False w0)) ''/tmp/tmpk3x9a2mq/file_list.txt''
       = Some (File (''a.txt'' @ [CHR 0x0A] @ ''b.txt''))
   \<and> w_log (snd (upload_directory (example_env 0) ''/data'' ''bucket/path''
          (Some [''a.txt'', ''b.txt'']) False w0))
       = [MkDir ''/tmp/tmpk3x9a2mq'',
          Write ''/tmp/tmpk3x9a2mq/file_list.txt'' (''a.txt'' @ [CHR 0x0A] @ ''b.txt''),
          Exec [''rclone'', ''copy'', ''/data'', ''paradigm-data-portal:bucket/path'', ''-v'',
                ''--files-from'', ''/tmp/tmpk3x9a2mq/file_list.txt'']]"
  by code_simp

theorem upload_directory_leaves_temp_file_witness:
  "w_fs (snd (upload_directory (example_env 0) ''/data'' ''bucket/path''
          (Some [''a.txt'', ''b.txt'']) False w0)) ''/tmp/tmpk3x9a2mq/file_list.txt'' \<noteq> None
   \<and> w_fs (snd (upload_directory (example_env 0) ''/data'' ''bucket/path''
          (Some [''a.txt'', ''b.txt'']) False w0)) ''/tmp/tmpk3x9a2mq'' \<noteq> None"
  using upload_directory_leaves_temp_file by simp

subsection \<open>C8: the file list and the exclude filter\<close>

text \<open>
  Claim C8 says that, without \<^verbatim>\<open>dir_files\<close>, the invocation includes a filter that
  excludes dotfiles. The argument the code passes after \<^verbatim>\<open>--exclude\<close> is the Python
  literal \<^verbatim>\<open>'".*"'\<close>: four characters, the first and the last a double quote.
  \<^verbatim>\<open>subprocess.call\<close> with a list starts \<^verbatim>\<open>rclone\<close> without a shell, so nothing
  strips the quotes: the pattern \<^verbatim>\<open>rclone\<close> receives is not the glob \<^verbatim>\<open>.*\<close> but one
  that only names wrapped in double quotes match. For every call without
  \<^verbatim>\<open>dir_files\<close> the argument vector is the one below.
\<close>

theorem upload_directory_exclude_pattern_quoted:
  "w_log (snd (upload_directory e local_path bucket_path None remove_deleted_files w))
     = w_log w @ [Exec [''rclone'', if remove_deleted_files then ''sync'' else ''copy'',
                        local_path, ''paradigm-data-portal:'' @ bucket_path, ''-v'',
                        ''--exclude'', [CHR 0x22, CHR ''.'', CHR ''*'', CHR 0x22]]]
   \<and> exclude_pattern = [CHR 0x22, CHR ''.'', CHR ''*'', CHR 0x22]
   \<and> exclude_pattern \<noteq> ''.*''"
  by (simp add: upload_directory_log exclude_pattern_def)

theorem upload_directory_exclude_pattern_quoted_witness:
  "w_log (snd (upload_directory (example_env 0) ''/data'' ''bucket/path'' None False w0))
     = [Exec [''rclone'', ''copy'', ''/data'', ''paradigm-data-portal:bucket/path'', ''-v'',
              ''--exclude'', [CHR 0x22, CHR ''.'', CHR ''*'', CHR 0x22]]]"
  using upload_directory_exclude_pattern_quoted
          [of "example_env 0" "''/data''" "''bucket/path''" False w0]
  by (simp add: w0_def)

text \<open>
  The other half of claim C8 holds: with \<^verbatim>\<open>dir_files\<close>, once the temporary directory
  is created and the list written, the file holds the paths joined by newlines and
  \<^verbatim>\<open>rclone\<close> is started with \<^verbatim>\<open>--files-from\<close> and the path of that file.
\<close>

theorem upload_directory_files_from:
  assumes "mkdtemp (print [] (print [S ''to bucket path:'', S bucket_path]
                      (print [S ''uploading directory:'', S local_path] w)))
             = (Inr temp_dir, w4)"
      and "write_file (path_join temp_dir ''file_list.txt'') (str_join [CHR 0x0A] files) w4
             = (Inr (), w5)"
  shows "w_log (snd (upload_directory e local_path bucket_path (Some files)
                       remove_deleted_files w))
           = w_log w5 @ [Exec [''rclone'', if remove_deleted_files then ''sync'' else ''copy'',
                               local_path, ''paradigm-data-portal:'' @ bucket_path, ''-v'',
                               ''--files-from'', path_join temp_dir ''file_list.txt'']]
         \<and> w_fs w5 (abspath w5 (path_join temp_dir ''file_list.txt''))
             = Some (File (str_join [CHR 0x0A] files))"
proof -
  let ?cmd = "[''rclone'', if remove_deleted_files then ''sync'' else ''copy'',
               local_path, ''paradigm-data-portal:'' @ bucket_path, ''-v'',
               ''--files-from'', path_join temp_dir ''file_list.txt'']"
  obtain r w7 where c: "subprocess_call e ?cmd w5 = (r, w7)"
    by (cases "subprocess_call e ?cmd w5")
  have "w_log (snd (subprocess_call e ?cmd w5)) = w_log w5 @ [Exec ?cmd]"
    by (rule subprocess_call_fields(1))
  then have l: "w_log w7 = w_log w5 @ [Exec ?cmd]" unfolding c by simp
  have "snd (upload_directory e local_path bucket_path (Some files) remove_deleted_files w) = w7"
    using c assms by (cases r) (simp_all add: upload_directory_def Let_def)
  then have a: "w_log (snd (upload_directory e local_path bucket_path (Some files)
                  remove_deleted_files w)) = w_log w5 @ [Exec ?cmd]"
    using l by simp
  have b: "w_fs w5 (abspath w5 (path_join temp_dir ''file_list.txt''))
             = Some (File (str_join [CHR 0x0A] files))"
    using assms(2)
    by (auto simp add: write_file_def Let_def abspath_def
             split: if_splits option.splits node.splits)
  from a b show ?thesis by blast
qed

theorem upload_directory_files_from_witness:
  "w_log (snd (upload_directory (example_env 0) ''/data'' ''bucket/path''
          (Some [''a.txt'', ''b.txt'']) True w0))
       = [MkDir ''/tmp/tmpk3x9a2mq'',
          Write ''/tmp/tmpk3x9a2mq/file_list.txt'' (''a.txt'' @ [CHR 0x0A] @ ''b.txt''),
          Exec [''rclone'', ''sync'', ''/data'', ''paradigm-data-portal:bucket/path'', ''-v'',
                ''--files-from'', ''/tmp/tmpk3x9a2mq/file_list.txt'']]"
proof -
  let ?w3 = "print [] (print [S ''to bucket path:'', S ''bucket/path'']
                      (print [S ''uploading directory:'', S ''/data''] w0))"
  have t: "fst (mkdtemp ?w3) = Inr ''/tmp/tmpk3x9a2mq''" by code_simp
  then have mk: "mkdtemp ?w3 = (Inr ''/tmp/tmpk3x9a2mq'', snd (mkdtemp ?w3))"
    by (metis prod.collapse)
  have t2: "fst (write_file (path_join ''/tmp/tmpk3x9a2mq'' ''file_list.txt'')
                   (str_join [CHR 0x0A] [''a.txt'', ''b.txt'']) (snd (mkdtemp ?w3))) = Inr ()"
    by code_simp
  then have wr: "write_file (path_join ''/tmp/tmpk3x9a2mq'' ''file_list.txt'')
                   (str_join [CHR 0x0A] [''a.txt'', ''b.txt'']) (snd (mkdtemp ?w3))
                 = (Inr (), snd (write_file (path_join ''/tmp/tmpk3x9a2mq'' ''file_list.txt'')
                   (str_join [CHR 0x0A] [''a.txt'', ''b.txt'']) (snd (mkdtemp ?w3))))"
    by (metis prod.collapse)
  have l5: "w_log (snd (write_file (path_join ''/tmp/tmpk3x9a2mq'' ''file_list.txt'')
                   (str_join [CHR 0x0A] [''a.txt'', ''b.txt'']) (snd (mkdtemp ?w3))))
            = [MkDir ''/tmp/tmpk3x9a2mq'',
               Write ''/tmp/tmpk3x9a2mq/file_list.txt'' (''a.txt'' @ [CHR 0x0A] @ ''b.txt'')]"
    by code_simp
  have p: "path_join ''/tmp/tmpk3x9a2mq'' ''file_list.txt'' = ''/tmp/tmpk3x9a2mq/file_list.txt''"
    by code_simp
  show ?thesis
    using upload_directory_files_from [OF mk wr, of "example_env 0" True] l5 p
    by simp
qed

end
